theory Spec2Isabelle
  imports Complex_Main "HOL-Library.Multiset"
begin

section \<open>Data model\<close>

text \<open>
  The program is a single Python script, \<^verbatim>\<open>cdf_animation.py\<close>. Its arrays are
  one-dimensional numpy arrays of floats; they are modelled as lists of reals, so
  rounding is not part of the model and every arithmetic identity below is exact.
  A Python exception becomes a value of the type \<open>error\<close>.
\<close>

datatype error =
    ScaleNegative    \<comment> \<open>numpy: \<^verbatim>\<open>ValueError("scale < 0")\<close> of \<^verbatim>\<open>np.random.normal\<close>\<close>
  | KeyError         \<comment> \<open>Python: a dictionary has no such key\<close>
  | ShapeMismatch    \<comment> \<open>numpy: operands of different lengths cannot be added\<close>
  | EmptyReduction   \<comment> \<open>numpy: \<^verbatim>\<open>np.min\<close> or \<^verbatim>\<open>np.max\<close> of an array without elements\<close>
  | InvalidInput     \<comment> \<open>percentile of a sample without elements\<close>

section \<open>The empirical CDF (lines 55 to 59)\<close>

text \<open>
  \<^verbatim>\<open>
  def empirical_cdf(data):
      sorted_data = np.sort(data)
      n = len(data)
      y = np.arange(1, n + 1) / n
      return sorted_data, y
  \<close>
  \<^verbatim>\<open>np.sort\<close> returns the ascending rearrangement, \<^verbatim>\<open>np.arange(1, n + 1)\<close> the
  integers \<open>1, \<dots>, n\<close>, and the division is elementwise. For \<open>n = 0\<close> the range is
  empty, so no element is ever divided by \<open>n\<close> and nothing is raised.
\<close>

definition empirical_cdf :: "real list \<Rightarrow> real list \<times> real list" where
  "empirical_cdf data =
     (let sorted_data = sort data;
          n = length data;
          y = map (\<lambda>k. real k / real n) [1..<n + 1]
      in (sorted_data, y))"

section \<open>The random generator of numpy\<close>

text \<open>
  The script draws its random numbers from numpy's process-wide generator
  (\<^verbatim>\<open>np.random.seed\<close>, \<^verbatim>\<open>np.random.normal\<close>, \<^verbatim>\<open>np.random.uniform\<close>). numpy is
  a library, so the generator is a parameter of the model: a state type \<open>'s\<close> with
  the three primitives every call is built from. \<open>rng_seed k\<close> is the state after
  seeding with \<open>k\<close>, \<open>rng_gauss\<close> draws one standard normal number and
  \<open>rng_double\<close> one number of the unit interval; each returns the next state.
\<close>

record 's rng =
  rng_seed :: "nat \<Rightarrow> 's"
  rng_gauss :: "'s \<Rightarrow> real \<times> 's"
  rng_double :: "'s \<Rightarrow> real \<times> 's"

text \<open>The one fact about a generator that matters here: a double lies in \<open>[0, 1)\<close>.\<close>

definition rng_ok :: "'s rng \<Rightarrow> bool" where
  "rng_ok R \<longleftrightarrow> (\<forall>s. 0 \<le> fst (rng_double R s) \<and> fst (rng_double R s) < 1)"

text \<open>\<^verbatim>\<open>np.random.seed(k)\<close> replaces the state of the process-wide generator.\<close>

definition np_random_seed :: "'s rng \<Rightarrow> nat \<Rightarrow> 's \<Rightarrow> 's" where
  "np_random_seed R k s = rng_seed R k"

fun gauss_n :: "'s rng \<Rightarrow> nat \<Rightarrow> 's \<Rightarrow> real list \<times> 's" where
  "gauss_n R 0 s = ([], s)"
| "gauss_n R (Suc k) s =
     (case rng_gauss R s of (z, s') \<Rightarrow>
        (case gauss_n R k s' of (zs, s'') \<Rightarrow> (z # zs, s'')))"

text \<open>
  \<^verbatim>\<open>np.random.normal(loc, scale)\<close> and \<^verbatim>\<open>np.random.normal(loc, scale, size)\<close>: numpy
  first rejects a negative scale with \<^verbatim>\<open>ValueError("scale < 0")\<close>, drawing nothing,
  and otherwise returns \<open>loc + scale * z\<close> for each standard normal draw \<open>z\<close>.
\<close>

definition np_random_normal :: "'s rng \<Rightarrow> real \<Rightarrow> real \<Rightarrow> 's \<Rightarrow> (error + real) \<times> 's" where
  "np_random_normal R loc scale s =
     (if scale < 0 then (Inl ScaleNegative, s)
      else (case rng_gauss R s of (z, s') \<Rightarrow> (Inr (loc + scale * z), s')))"

definition np_random_normal_n ::
  "'s rng \<Rightarrow> real \<Rightarrow> real \<Rightarrow> nat \<Rightarrow> 's \<Rightarrow> (error + real list) \<times> 's" where
  "np_random_normal_n R loc scale k s =
     (if scale < 0 then (Inl ScaleNegative, s)
      else (case gauss_n R k s of (zs, s') \<Rightarrow> (Inr (map (\<lambda>z. loc + scale * z) zs), s')))"

text \<open>\<^verbatim>\<open>np.random.uniform(low, high)\<close> is \<open>low + (high - low) * u\<close> for one double \<open>u\<close>.\<close>

definition np_random_uniform :: "'s rng \<Rightarrow> real \<Rightarrow> real \<Rightarrow> 's \<Rightarrow> real \<times> 's" where
  "np_random_uniform R low high s =
     (case rng_double R s of (u, s') \<Rightarrow> (low + (high - low) * u, s'))"

section \<open>The generator (lines 26 to 52)\<close>

text \<open>
  \<^verbatim>\<open>
  @st.cache_data
  def generate_evolving_data(n_obs, trend_str, vol):
      np.random.seed(42)  # For reproducibility
      years = list(range(2010, 2016))
      data = {}
      base_mean = 50
      base_std = 15
      for i, year in enumerate(years):
          year_mean = base_mean + trend_str * i + np.random.normal(0, 2)
          year_std = base_std * vol + np.random.uniform(-2, 2)
          if i == 0:
              values = np.random.normal(year_mean, year_std, n_obs)
          else:
              prev_values = data[years[i-1]]
              noise = np.random.normal(0, year_std, n_obs)
              values = 0.7 * prev_values + 0.3 * year_mean + noise
          data[year] = values
      return data, years
  \<close>
  The dictionary \<open>data\<close> is a map from years to arrays. The function threads the
  state of the generator and returns it with its result; an exception ends the loop
  and is returned in place of the result. The function has no check of \<open>n_obs\<close> or
  \<open>vol\<close>: the only exceptions are those of the operations it calls. \<open>n_obs\<close> is a
  natural number (the slider of line 20 yields 100 to 2000), \<open>trend_str\<close> and \<open>vol\<close>
  are reals.
\<close>

type_synonym sample_set = "nat \<rightharpoonup> real list"

definition base_mean :: real where
  "base_mean = 50"

definition base_std :: real where
  "base_std = 15"

text \<open>
  Line 48, \<^verbatim>\<open>0.7 * prev_values + 0.3 * year_mean + noise\<close>, is elementwise on two
  arrays. Both have \<open>n_obs\<close> elements whenever the line is reached (lemma
  \<open>values_at_length\<close> below); numpy refuses to add arrays of two different lengths
  (one-element arrays apart, which it would stretch).
\<close>

definition blend :: "real list \<Rightarrow> real \<Rightarrow> real list \<Rightarrow> error + real list" where
  "blend prev_values year_mean noise =
     (if length prev_values \<noteq> length noise then Inl ShapeMismatch
      else Inr (map2 (\<lambda>p z. 0.7 * p + 0.3 * year_mean + z) prev_values noise))"

text \<open>One pass of the loop body (lines 37 to 50), for the pair \<open>(i, year)\<close>.\<close>

definition year_step ::
  "'s rng \<Rightarrow> nat \<Rightarrow> real \<Rightarrow> real \<Rightarrow> nat list \<Rightarrow> sample_set \<times> 's \<Rightarrow> nat \<times> nat
     \<Rightarrow> (error + sample_set) \<times> 's" where
  "year_step R n_obs trend_str vol years st p =
     (case st of (data, s) \<Rightarrow> case p of (i, year) \<Rightarrow>
      (case np_random_normal R 0 2 s of
         (Inl e, s1) \<Rightarrow> (Inl e, s1)
       | (Inr jitter, s1) \<Rightarrow>
           (let year_mean = base_mean + trend_str * real i + jitter in
            case np_random_uniform R (- 2) 2 s1 of (u, s2) \<Rightarrow>
            (let year_std = base_std * vol + u in
             if i = 0 then
               (case np_random_normal_n R year_mean year_std n_obs s2 of
                  (Inl e, s3) \<Rightarrow> (Inl e, s3)
                | (Inr values, s3) \<Rightarrow> (Inr (data(year \<mapsto> values)), s3))
             else
               (case data (years ! (i - 1)) of
                  None \<Rightarrow> (Inl KeyError, s2)
                | Some prev_values \<Rightarrow>
                    (case np_random_normal_n R 0 year_std n_obs s2 of
                       (Inl e, s3) \<Rightarrow> (Inl e, s3)
                     | (Inr noise, s3) \<Rightarrow>
                         (case blend prev_values year_mean noise of
                            Inl e \<Rightarrow> (Inl e, s3)
                          | Inr values \<Rightarrow> (Inr (data(year \<mapsto> values)), s3))))))))"

text \<open>The loop of line 36 over \<^verbatim>\<open>enumerate(years)\<close>; an exception ends it.\<close>

fun run_years ::
  "'s rng \<Rightarrow> nat \<Rightarrow> real \<Rightarrow> real \<Rightarrow> nat list \<Rightarrow> sample_set \<times> 's \<Rightarrow> (nat \<times> nat) list
     \<Rightarrow> (error + sample_set) \<times> 's" where
  "run_years R n_obs trend_str vol years st [] = (Inr (fst st), snd st)"
| "run_years R n_obs trend_str vol years st (p # ps) =
     (case year_step R n_obs trend_str vol years st p of
        (Inl e, s') \<Rightarrow> (Inl e, s')
      | (Inr data', s') \<Rightarrow> run_years R n_obs trend_str vol years (data', s') ps)"

text \<open>
  The function body. The argument \<open>g\<close> is the state in which the call finds the
  process-wide generator; line 28 overwrites it.
\<close>

definition generate_evolving_data ::
  "'s rng \<Rightarrow> nat \<Rightarrow> real \<Rightarrow> real \<Rightarrow> 's \<Rightarrow> (error + sample_set \<times> nat list) \<times> 's" where
  "generate_evolving_data R n_obs trend_str vol g =
     (let s0 = np_random_seed R 42 g;
          years = [2010..<2016]
      in case run_years R n_obs trend_str vol years (Map.empty, s0) (enumerate 0 years) of
           (Inl e, s') \<Rightarrow> (Inl e, s')
         | (Inr data, s') \<Rightarrow> (Inr (data, years), s'))"

text \<open>
  The decorator \<^verbatim>\<open>@st.cache_data\<close> of line 26: a call whose arguments are in the
  cache returns the stored result and does not run the body (so it leaves the
  generator alone); any other call runs the body and stores what it returns. An
  exception is not stored. A session holds the generator's state and the cache.
\<close>

record 's session =
  np_state :: 's
  cache :: "nat \<times> real \<times> real \<rightharpoonup> sample_set \<times> nat list"

definition cached_generate_evolving_data ::
  "'s rng \<Rightarrow> nat \<Rightarrow> real \<Rightarrow> real \<Rightarrow> 's session
     \<Rightarrow> (error + sample_set \<times> nat list) \<times> 's session" where
  "cached_generate_evolving_data R n_obs trend_str vol \<sigma> =
     (case cache \<sigma> (n_obs, trend_str, vol) of
        Some r \<Rightarrow> (Inr r, \<sigma>)
      | None \<Rightarrow>
          (case generate_evolving_data R n_obs trend_str vol (np_state \<sigma>) of
             (Inl e, s') \<Rightarrow> (Inl e, \<sigma>\<lparr>np_state := s'\<rparr>)
           | (Inr r, s') \<Rightarrow>
               (Inr r, \<sigma>\<lparr>np_state := s', cache := (cache \<sigma>)((n_obs, trend_str, vol) \<mapsto> r)\<rparr>)))"

text \<open>
  A cache is sound when each entry is what the body returns for its key. The cache
  is empty when the session starts and only \<open>cached_generate_evolving_data\<close>
  writes to it, so it is sound throughout (lemma \<open>cache_sound_preserved\<close>).
\<close>

definition cache_sound ::
  "'s rng \<Rightarrow> (nat \<times> real \<times> real \<rightharpoonup> sample_set \<times> nat list) \<Rightarrow> bool" where
  "cache_sound R c \<longleftrightarrow>
     (\<forall>n_obs trend_str vol r g. c (n_obs, trend_str, vol) = Some r \<longrightarrow>
        fst (generate_evolving_data R n_obs trend_str vol g) = Inr r)"

subsection \<open>The values of the loop's local variables\<close>

text \<open>
  The draws of one pass of the loop, in the order of lines 38, 39 and 43 or 47: one
  normal draw for the mean's jitter, one double for the spread's jitter, and
  \<open>n_obs\<close> normal draws for the sample. \<open>state_before R n_obs i\<close> is the state of
  the generator when pass \<open>i\<close> begins.
\<close>

definition period_draws :: "'s rng \<Rightarrow> nat \<Rightarrow> 's \<Rightarrow> real \<times> real \<times> real list \<times> 's" where
  "period_draws R n_obs s =
     (case rng_gauss R s of (z, s1) \<Rightarrow>
      case rng_double R s1 of (u, s2) \<Rightarrow>
      case gauss_n R n_obs s2 of (zs, s3) \<Rightarrow> (z, u, zs, s3))"

primrec state_before :: "'s rng \<Rightarrow> nat \<Rightarrow> nat \<Rightarrow> 's" where
  "state_before R n_obs 0 = rng_seed R 42"
| "state_before R n_obs (Suc i) = snd (snd (snd (period_draws R n_obs (state_before R n_obs i))))"

text \<open>The variable \<open>year_mean\<close> of line 38 in pass \<open>i\<close>.\<close>

definition year_mean_at :: "'s rng \<Rightarrow> nat \<Rightarrow> real \<Rightarrow> nat \<Rightarrow> real" where
  "year_mean_at R n_obs trend_str i =
     base_mean + trend_str * real i
       + (0 + 2 * fst (period_draws R n_obs (state_before R n_obs i)))"

text \<open>The variable \<open>year_std\<close> of line 39 in pass \<open>i\<close>.\<close>

definition year_std_at :: "'s rng \<Rightarrow> nat \<Rightarrow> real \<Rightarrow> nat \<Rightarrow> real" where
  "year_std_at R n_obs vol i =
     base_std * vol
       + (- 2 + (2 - (- 2)) * fst (snd (period_draws R n_obs (state_before R n_obs i))))"

text \<open>The \<open>n_obs\<close> standard normal draws behind line 43 or 47 in pass \<open>i\<close>.\<close>

definition normal_draws_at :: "'s rng \<Rightarrow> nat \<Rightarrow> nat \<Rightarrow> real list" where
  "normal_draws_at R n_obs i =
     fst (snd (snd (period_draws R n_obs (state_before R n_obs i))))"

text \<open>The variable \<open>values\<close> of line 43 or 48 in pass \<open>i\<close>.\<close>

primrec values_at :: "'s rng \<Rightarrow> nat \<Rightarrow> real \<Rightarrow> real \<Rightarrow> nat \<Rightarrow> real list" where
  "values_at R n_obs trend_str vol 0 =
     map (\<lambda>z. year_mean_at R n_obs trend_str 0 + year_std_at R n_obs vol 0 * z)
       (normal_draws_at R n_obs 0)"
| "values_at R n_obs trend_str vol (Suc i) =
     map2 (\<lambda>p z. 0.7 * p + 0.3 * year_mean_at R n_obs trend_str (Suc i) + z)
       (values_at R n_obs trend_str vol i)
       (map (\<lambda>z. 0 + year_std_at R n_obs vol (Suc i) * z) (normal_draws_at R n_obs (Suc i)))"

text \<open>The dictionary \<open>data\<close> after \<open>k\<close> passes.\<close>

primrec data_upto :: "'s rng \<Rightarrow> nat \<Rightarrow> real \<Rightarrow> real \<Rightarrow> nat \<Rightarrow> sample_set" where
  "data_upto R n_obs trend_str vol 0 = Map.empty"
| "data_upto R n_obs trend_str vol (Suc k) =
     (data_upto R n_obs trend_str vol k)(2010 + k \<mapsto> values_at R n_obs trend_str vol k)"

section \<open>Quartiles and frames (lines 128 to 169)\<close>

text \<open>
  Modelled from the spec: \<^verbatim>\<open>np.percentile\<close> is a routine of the numpy library and not
  part of the repository's source. The spec (section 4.2) has the quartiles computed
  ``via linear-interpolation percentile estimation'', the conventional definition that
  numpy's default method implements: with the sample sorted ascending as
  \<open>s\<^sub>0, \<dots>, s\<^sub>n\<^sub>-\<^sub>1\<close>, the percentile \<open>q\<close> sits at the position \<open>h = (n - 1) * q / 100\<close>
  and is interpolated linearly between \<open>s\<close> at \<open>\<lfloor>h\<rfloor>\<close> and its successor. For an empty
  sample the spec has the computation fail with InvalidInput. A percentile outside
  \<open>[0, 100]\<close> is refused; the script asks for 25, 50 and 75 only.
\<close>

definition percentile :: "real list \<Rightarrow> real \<Rightarrow> error + real" where
  "percentile a q =
     (if a = [] \<or> q < 0 \<or> 100 < q then Inl InvalidInput
      else
        (let s = sort a;
             n = length a;
             h = real (n - 1) * (q / 100);
             lo = nat \<lfloor>h\<rfloor>;
             hi = min (lo + 1) (n - 1)
         in Inr (s ! lo + (h - real lo) * (s ! hi - s ! lo))))"

fun np_percentile :: "real list \<Rightarrow> real list \<Rightarrow> error + real list" where
  "np_percentile a [] = Inr []"
| "np_percentile a (q # qs) =
     (case percentile a q of
        Inl e \<Rightarrow> Inl e
      | Inr x \<Rightarrow> (case np_percentile a qs of Inl e \<Rightarrow> Inl e | Inr xs \<Rightarrow> Inr (x # xs)))"

text \<open>
  What one pass of the animation loop hands to the chart: the CDF line (lines 130 to
  143), the quartile markers with their fixed ordinates (lines 146 to 155), and the
  layout's year, sample size and shared x range (lines 158 to 169).
\<close>

record frame =
  frame_year :: nat
  cdf_x :: "real list"
  cdf_y :: "real list"
  quartile_x :: "real list"
  quartile_y :: "real list"
  x_range :: "real \<times> real"
  sample_size :: nat

definition make_frame :: "nat \<Rightarrow> real \<times> real \<Rightarrow> nat \<Rightarrow> real list \<Rightarrow> error + frame" where
  "make_frame n_observations xr year current_data =
     (case empirical_cdf current_data of (x_cdf, y_cdf) \<Rightarrow>
      (case np_percentile current_data [25, 50, 75] of
         Inl e \<Rightarrow> Inl e
       | Inr qs \<Rightarrow>
           Inr \<lparr>frame_year = year, cdf_x = x_cdf, cdf_y = y_cdf,
                quartile_x = qs, quartile_y = [0.25, 0.50, 0.75],
                x_range = xr, sample_size = n_observations\<rparr>))"

section \<open>The animation (lines 110 to 185)\<close>

text \<open>
  \<^verbatim>\<open>
  start_animation = st.button("Start Animation", type="primary")      # line 93
  stop_animation = st.button("Stop Animation")                        # line 96
  if start_animation:
      progress_bar = st.progress(0)
      status_text = st.empty()
      all_values = np.concatenate([data_dict[year] for year in years])
      x_min, x_max = np.min(all_values) - 5, np.max(all_values) + 5
      for i, year in enumerate(years):
          if stop_animation:
              break
          progress = (i + 1) / len(years)
          progress_bar.progress(progress)
          status_text.text(f"Showing year: {year}")
          current_data = data_dict[year]
          ...                                       # the frame, see make_frame
          with plot_placeholder.container():
              st.plotly_chart(fig, use_container_width=True)
          time.sleep(animation_speed)
      progress_bar.empty()
      status_text.empty()
      st.success("Animation completed!")
  \<close>
  What the block does to the page is a list of events, in order: every call into
  Streamlit and every sleep. The two button values are assigned once, before the
  block, and nothing in the block assigns them again: they are arguments of the
  model and the same in every pass of the loop. An exception ends the block; the
  events before it have happened. \<open>animation\<close> is the run that nothing disturbs; a
  click that arrives while it is under way is the subject of the next section.
\<close>

datatype event =
    ProgressBar real     \<comment> \<open>\<^verbatim>\<open>st.progress(0)\<close>: the bar is created\<close>
  | StatusPlaceholder    \<comment> \<open>\<^verbatim>\<open>st.empty()\<close> of line 113\<close>
  | Progress real        \<comment> \<open>\<^verbatim>\<open>progress_bar.progress(progress)\<close>\<close>
  | StatusText nat       \<comment> \<open>\<^verbatim>\<open>status_text.text(...)\<close> with the year shown\<close>
  | PlotContainer        \<comment> \<open>\<^verbatim>\<open>plot_placeholder.container()\<close>\<close>
  | PlotlyChart frame    \<comment> \<open>\<^verbatim>\<open>st.plotly_chart(fig, ...)\<close>\<close>
  | Sleep real           \<comment> \<open>\<^verbatim>\<open>time.sleep(animation_speed)\<close>\<close>
  | ProgressCleared      \<comment> \<open>\<^verbatim>\<open>progress_bar.empty()\<close>\<close>
  | StatusCleared        \<comment> \<open>\<^verbatim>\<open>status_text.empty()\<close>\<close>
  | Success              \<comment> \<open>\<^verbatim>\<open>st.success("Animation completed!")\<close>\<close>

text \<open>\<^verbatim>\<open>[data_dict[year] for year in years]\<close> of line 116.\<close>

fun lookup_all :: "sample_set \<Rightarrow> nat list \<Rightarrow> error + real list list" where
  "lookup_all data_dict [] = Inr []"
| "lookup_all data_dict (year # years) =
     (case data_dict year of
        None \<Rightarrow> Inl KeyError
      | Some a \<Rightarrow>
          (case lookup_all data_dict years of Inl e \<Rightarrow> Inl e | Inr as \<Rightarrow> Inr (a # as)))"

text \<open>The loop of lines 119 to 180 over \<^verbatim>\<open>enumerate(years)\<close>; \<open>m\<close> is \<^verbatim>\<open>len(years)\<close>.\<close>

fun frame_loop ::
  "bool \<Rightarrow> sample_set \<Rightarrow> nat \<Rightarrow> nat \<Rightarrow> real \<times> real \<Rightarrow> real \<Rightarrow> (nat \<times> nat) list
     \<Rightarrow> event list \<times> error option" where
  "frame_loop stop_animation data_dict m n_observations xr animation_speed [] = ([], None)"
| "frame_loop stop_animation data_dict m n_observations xr animation_speed ((i, year) # ps) =
     (if stop_animation then ([], None)
      else
        (let progress = real (i + 1) / real m;
             shown = [Progress progress, StatusText year]
         in case data_dict year of
              None \<Rightarrow> (shown, Some KeyError)
            | Some current_data \<Rightarrow>
                (case make_frame n_observations xr year current_data of
                   Inl e \<Rightarrow> (shown, Some e)
                 | Inr fig \<Rightarrow>
                     (case frame_loop stop_animation data_dict m n_observations xr
                             animation_speed ps of
                        (evs, r) \<Rightarrow>
                          (shown @ [PlotContainer, PlotlyChart fig, Sleep animation_speed]
                             @ evs, r)))))"

text \<open>
  The block of line 110. \<^verbatim>\<open>np.min\<close> and \<^verbatim>\<open>np.max\<close> of line 117 raise on an array
  without elements (and \<^verbatim>\<open>np.concatenate\<close> on an empty list of arrays).
\<close>

definition animation ::
  "bool \<Rightarrow> bool \<Rightarrow> sample_set \<Rightarrow> nat list \<Rightarrow> nat \<Rightarrow> real \<Rightarrow> event list \<times> error option" where
  "animation start_animation stop_animation data_dict years n_observations animation_speed =
     (if \<not> start_animation then ([], None)
      else
        (case lookup_all data_dict years of
           Inl e \<Rightarrow> ([ProgressBar 0, StatusPlaceholder], Some e)
         | Inr arrays \<Rightarrow>
             (let all_values = concat arrays in
              if all_values = [] then ([ProgressBar 0, StatusPlaceholder], Some EmptyReduction)
              else
                (let x_min = Min (set all_values) - 5;
                     x_max = Max (set all_values) + 5
                 in case frame_loop stop_animation data_dict (length years) n_observations
                           (x_min, x_max) animation_speed (enumerate 0 years) of
                      (evs, Some e) \<Rightarrow> (ProgressBar 0 # StatusPlaceholder # evs, Some e)
                    | (evs, None) \<Rightarrow>
                        (ProgressBar 0 # StatusPlaceholder # evs
                           @ [ProgressCleared, StatusCleared, Success],
                         None)))))"

text \<open>The frames drawn and the progress fractions reported, in the order of the events.\<close>

fun charts :: "event list \<Rightarrow> frame list" where
  "charts [] = []"
| "charts (PlotlyChart fig # evs) = fig # charts evs"
| "charts (ev # evs) = charts evs"

fun progress_reports :: "event list \<Rightarrow> real list" where
  "progress_reports [] = []"
| "progress_reports (Progress p # evs) = p # progress_reports evs"
| "progress_reports (ev # evs) = progress_reports evs"

text \<open>
  The dictionary handed to the animation holds a non-empty array for each year: what
  the generator returns when \<open>n_obs \<ge> 1\<close> (lemma \<open>generate_has_samples\<close>).
\<close>

definition has_samples :: "sample_set \<Rightarrow> nat list \<Rightarrow> bool" where
  "has_samples data_dict years \<longleftrightarrow>
     (\<forall>year\<in>set years. case data_dict year of None \<Rightarrow> False | Some a \<Rightarrow> a \<noteq> [])"

section \<open>A click while the animation runs\<close>

text \<open>
  Streamlit runs the script from top to bottom once for each interaction with the
  page. A click on a button while a run is under way does not change a variable of
  that run: the runner notes the click, abandons the run at the script's next call
  into Streamlit, and runs the script again; in the new run the button that was
  clicked is \<open>True\<close> and every other button \<open>False\<close>. So a click on the stop button
  ends the animation through the runner, and the new run, with \<open>start_animation\<close>
  false, does not enter the block of line 110.

  Every event of the model is a call into Streamlit but the sleep of line 180.
\<close>

fun is_st_call :: "event \<Rightarrow> bool" where
  "is_st_call (Sleep d) = False"
| "is_st_call ev = True"

text \<open>
  What is left of a run once the click has arrived: the run goes on as long as it
  makes no call into Streamlit and is abandoned at the first such call. The boolean
  tells whether the run was abandoned or reached its end first.
\<close>

fun abandon_at_next_call :: "event list \<Rightarrow> event list \<times> bool" where
  "abandon_at_next_call [] = ([], False)"
| "abandon_at_next_call (ev # evs) =
     (if is_st_call ev then ([], True)
      else (case abandon_at_next_call evs of (made, abandoned) \<Rightarrow> (ev # made, abandoned)))"

text \<open>
  A run whose undisturbed events would be \<open>evs\<close>, when the click arrives after the
  run has made \<open>c\<close> of them.
\<close>

fun interrupted :: "nat \<Rightarrow> event list \<Rightarrow> event list \<times> bool" where
  "interrupted 0 evs = abandon_at_next_call evs"
| "interrupted (Suc c) [] = ([], False)"
| "interrupted (Suc c) (ev # evs) =
     (case interrupted c evs of (made, abandoned) \<Rightarrow> (ev # made, abandoned))"

text \<open>How a run of the block ends.\<close>

datatype outcome =
    Finished          \<comment> \<open>the block ran to its last line\<close>
  | Raised error      \<comment> \<open>an exception ended it\<close>
  | Abandoned         \<comment> \<open>the runner abandoned it after a click\<close>

definition animation_clicked ::
  "nat \<Rightarrow> bool \<Rightarrow> bool \<Rightarrow> sample_set \<Rightarrow> nat list \<Rightarrow> nat \<Rightarrow> real \<Rightarrow> event list \<times> outcome" where
  "animation_clicked c start_animation stop_animation data_dict years n_observations
       animation_speed =
     (case animation start_animation stop_animation data_dict years n_observations
             animation_speed of
        (evs, r) \<Rightarrow>
          (case interrupted c evs of
             (made, True) \<Rightarrow> (made, Abandoned)
           | (made, False) \<Rightarrow> (made, case r of None \<Rightarrow> Finished | Some e \<Rightarrow> Raised e)))"

section \<open>A small generator to run the model on\<close>

text \<open>
  A linear congruential generator with sixteen states stands in for numpy's
  Mersenne Twister where a theorem is run on concrete inputs.
\<close>

definition lcg_next :: "nat \<Rightarrow> nat" where
  "lcg_next s = (5 * s + 13) mod 16"

definition lcg :: "nat rng" where
  "lcg = \<lparr> rng_seed = (\<lambda>k. k mod 16),
           rng_gauss = (\<lambda>s. ((real (lcg_next s) - 8) / 4, lcg_next s)),
           rng_double = (\<lambda>s. (real (lcg_next s) / 16, lcg_next s)) \<rparr>"

text \<open>
  The data this generator yields for \<open>n_obs = 2\<close>, \<open>trend_str = 1 / 2\<close> and \<open>vol = 1\<close>
  (lemma \<open>lcg_generate_2\<close>).
\<close>

definition lcg_data :: sample_set where
  "lcg_data =
     [2010 \<mapsto> [169 / 4, 46], 2011 \<mapsto> [827 / 40, 134 / 5],
      2012 \<mapsto> [18349 / 400, 5341 / 100], 2013 \<mapsto> [203243 / 4000, 60087 / 1000],
      2014 \<mapsto> [1638701 / 40000, 512109 / 10000],
      2015 \<mapsto> [8150907 / 400000, 3104763 / 100000]]"

section \<open>Properties of the empirical CDF\<close>

lemma empirical_cdf_fst: "fst (empirical_cdf data) = sort data"
  by (simp add: empirical_cdf_def Let_def)

lemma empirical_cdf_snd:
  "snd (empirical_cdf data) = map (\<lambda>k. real k / real (length data)) [1..<length data + 1]"
  by (simp add: empirical_cdf_def Let_def)

lemma cumulative_sorted:
  "sorted (map (\<lambda>k. real k / real n) [1..<n + 1])"
proof -
  have "sorted_wrt (\<lambda>j k. real j / real n \<le> real k / real n) [1..<n + 1]"
    by (rule sorted_wrt_mono_rel [OF _ sorted_upt]) (simp add: divide_right_mono)
  then show ?thesis
    by (simp only: sorted_map)
qed

text \<open>
  C3. For every non-empty sample of length \<open>n\<close>, the cumulative-probability sequence
  returned by \<open>empirical_cdf\<close> is non-decreasing, its first element is \<open>1 / n\<close> and
  its last element is exactly \<open>1\<close>.
\<close>

theorem cdf_probabilities_shape:
  assumes "data \<noteq> []"
  shows "sorted (snd (empirical_cdf data))
       \<and> hd (snd (empirical_cdf data)) = 1 / real (length data)
       \<and> last (snd (empirical_cdf data)) = 1"
proof -
  from assms obtain m where m: "length data = Suc m"
    by (cases data) auto
  have s: "sorted (snd (empirical_cdf data))"
    unfolding empirical_cdf_snd by (rule cumulative_sorted)
  have "[1..<Suc m + 1] = 1 # [Suc 1..<Suc m + 1]"
    by (rule upt_conv_Cons) simp
  then have h: "hd (snd (empirical_cdf data)) = 1 / real (length data)"
    unfolding empirical_cdf_snd m by (simp del: upt_Suc)
  have l: "last (snd (empirical_cdf data)) = 1"
    unfolding empirical_cdf_snd m by simp
  from s h l show ?thesis by simp
qed

theorem cdf_probabilities_shape_witness:
  "[3, 1, 2 :: real] \<noteq> []
   \<and> sorted (snd (empirical_cdf [3, 1, 2]))
   \<and> hd (snd (empirical_cdf [3, 1, 2])) = 1 / real (length [3, 1, 2 :: real])
   \<and> last (snd (empirical_cdf [3, 1, 2])) = 1"
  using cdf_probabilities_shape [of "[3, 1, 2]"] by simp

text \<open>
  C5, as stated, fails: \<open>empirical_cdf\<close> has no check of its argument and no
  operation in it raises. On the empty sample it returns the pair of two empty
  sequences.
\<close>

theorem cdf_empty_returns: "empirical_cdf [] = ([], [])"
  by (simp add: empirical_cdf_def Let_def)

text \<open>
  C5, amended. \<open>empirical_cdf\<close> applied to an empty sample returns the pair of
  two empty sequences, and this is the only sample for which it does so: the
  function returns a value for every sample and raises no error.
\<close>

theorem cdf_empty_iff: "(empirical_cdf data = ([], [])) = (data = [])"
proof -
  have "sort data = [] \<longleftrightarrow> data = []"
    by (metis length_sort length_0_conv)
  then show ?thesis
    by (auto simp add: empirical_cdf_def Let_def)
qed

text \<open>
  C10. \<open>empirical_cdf\<close> is invariant under permutation of the sample: two samples
  with the same elements in any order give the same sorted-value sequence and the
  same cumulative-probability sequence.
\<close>

theorem cdf_permutation_invariant:
  assumes "mset data' = mset data"
  shows "fst (empirical_cdf data') = fst (empirical_cdf data)
       \<and> snd (empirical_cdf data') = snd (empirical_cdf data)"
proof -
  have len: "length data' = length data"
    using assms by (rule mset_eq_length)
  have "sort data' = sort data"
    using assms by (simp add: properties_for_sort)
  with len show ?thesis
    by (simp add: empirical_cdf_def Let_def)
qed

theorem cdf_permutation_invariant_witness:
  "mset [2, 3, 1 :: real] = mset [3, 1, 2]
   \<and> fst (empirical_cdf [2, 3, 1]) = fst (empirical_cdf [3, 1, 2])
   \<and> snd (empirical_cdf [2, 3, 1]) = snd (empirical_cdf [3, 1, 2])"
proof -
  have h: "mset [2, 3, 1 :: real] = mset [3, 1, 2]"
    by (simp add: add_mset_commute)
  show ?thesis
    using h cdf_permutation_invariant [OF h] by simp
qed

section \<open>Properties of the generator\<close>

lemma years_nth: "i < 6 \<Longrightarrow> [2010..<2016] ! i = 2010 + i"
  by (rule nth_upt) simp

lemma gauss_n_length: "length (fst (gauss_n R k s)) = k"
  by (induction k arbitrary: s) (auto split: prod.splits, metis fst_conv)

lemma normal_draws_at_length: "length (normal_draws_at R n i) = n"
  by (simp add: normal_draws_at_def period_draws_def split: prod.splits)
    (metis fst_conv gauss_n_length)

lemma values_at_length: "length (values_at R n t v i) = n"
  by (induction i) (simp_all add: normal_draws_at_length)

lemma data_upto_lookup:
  "data_upto R n t v k (2010 + i) = (if i < k then Some (values_at R n t v i) else None)"
  by (induction k) auto

lemma run_years_append:
  "run_years R n t v ys st (ps @ qs) =
     (case run_years R n t v ys st ps of
        (Inl e, s') \<Rightarrow> (Inl e, s')
      | (Inr d, s') \<Rightarrow> run_years R n t v ys (d, s') qs)"
  by (induction ps arbitrary: st) (auto split: prod.splits sum.splits)

lemma period_draws_cases:
  obtains z s1 u s2 zs s3 where
    "rng_gauss R (state_before R n i) = (z, s1)" "rng_double R s1 = (u, s2)"
    "gauss_n R n s2 = (zs, s3)"
    "year_mean_at R n t i = base_mean + t * real i + (0 + 2 * z)"
    "year_std_at R n v i = base_std * v + (- 2 + (2 - (- 2)) * u)"
    "normal_draws_at R n i = zs"
    "state_before R n (Suc i) = s3"
proof -
  obtain z s1 where g: "rng_gauss R (state_before R n i) = (z, s1)"
    by (cases "rng_gauss R (state_before R n i)")
  obtain u s2 where d: "rng_double R s1 = (u, s2)"
    by (cases "rng_double R s1")
  obtain zs s3 where zs: "gauss_n R n s2 = (zs, s3)"
    by (cases "gauss_n R n s2")
  have pd: "period_draws R n (state_before R n i) = (z, u, zs, s3)"
    by (simp add: period_draws_def g d zs)
  show thesis
    by (rule that [OF g d zs])
      (simp_all add: year_mean_at_def year_std_at_def normal_draws_at_def pd)
qed

lemma year_step_ok:
  assumes "0 \<le> year_std_at R n v i" and "\<And>j. i = Suc j \<Longrightarrow> ys ! j = 2010 + j"
  shows "year_step R n t v ys (data_upto R n t v i, state_before R n i) (i, 2010 + i)
       = (Inr (data_upto R n t v (Suc i)), state_before R n (Suc i))"
proof -
  obtain z s1 u s2 zs s3 where
    g: "rng_gauss R (state_before R n i) = (z, s1)" and d: "rng_double R s1 = (u, s2)" and
    zs: "gauss_n R n s2 = (zs, s3)" and
    m: "year_mean_at R n t i = base_mean + t * real i + (0 + 2 * z)" and
    sd: "year_std_at R n v i = base_std * v + (- 2 + (2 - (- 2)) * u)" and
    nd: "normal_draws_at R n i = zs" and
    sb: "state_before R n (Suc i) = s3"
    by (rule period_draws_cases [of R n i t v])
  have nn: "\<not> base_std * v + (- 2 + (2 - (- 2)) * u) < 0"
    using assms(1) unfolding sd by simp
  show ?thesis
  proof (cases i)
    case 0
    have vals: "values_at R n t v 0
        = map (\<lambda>x. base_mean + t * real (0::nat) + (0 + 2 * z)
              + (base_std * v + (- 2 + (2 - (- 2)) * u)) * x) zs"
      using m sd nd unfolding 0 by simp
    show ?thesis
      unfolding 0 year_step_def np_random_normal_def np_random_uniform_def
        np_random_normal_n_def Let_def data_upto.simps vals sb [unfolded 0]
      using g [unfolded 0] d zs nn by simp
  next
    case (Suc j)
    have prev: "data_upto R n t v (Suc j) (ys ! j) = Some (values_at R n t v j)"
      using assms(2) [OF Suc] data_upto_lookup [of R n t v "Suc j" j]
      by (simp del: data_upto.simps)
    have len: "length (values_at R n t v j) = length zs"
      using nd normal_draws_at_length [of R n i] by (simp add: values_at_length)
    have vals: "values_at R n t v (Suc j)
        = map2 (\<lambda>p x. 0.7 * p + 0.3 * (base_mean + t * real (Suc j) + (0 + 2 * z)) + x)
            (values_at R n t v j)
            (map (\<lambda>x. 0 + (base_std * v + (- 2 + (2 - (- 2)) * u)) * x) zs)"
      using m sd nd unfolding Suc by simp
    have upd: "data_upto R n t v (Suc (Suc j))
        = (data_upto R n t v (Suc j))(2010 + Suc j \<mapsto> values_at R n t v (Suc j))"
      by simp
    show ?thesis
      unfolding Suc year_step_def np_random_normal_def np_random_uniform_def
        np_random_normal_n_def Let_def blend_def upd vals sb [unfolded Suc]
      using g [unfolded Suc] d zs nn len by (simp add: prev del: data_upto.simps)
  qed
qed

lemma year_step_bad:
  assumes "year_std_at R n v i < 0" and "\<And>j. i = Suc j \<Longrightarrow> ys ! j = 2010 + j"
  shows "fst (year_step R n t v ys (data_upto R n t v i, state_before R n i) (i, 2010 + i))
       = Inl ScaleNegative"
proof -
  obtain z s1 u s2 zs s3 where
    g: "rng_gauss R (state_before R n i) = (z, s1)" and d: "rng_double R s1 = (u, s2)" and
    sd: "year_std_at R n v i = base_std * v + (- 2 + (2 - (- 2)) * u)"
    by (rule period_draws_cases [of R n i t v])
  have neg: "base_std * v + (- 2 + (2 - (- 2)) * u) < 0"
    using assms(1) unfolding sd by simp
  show ?thesis
  proof (cases i)
    case 0
    show ?thesis
      unfolding 0 year_step_def np_random_normal_def np_random_uniform_def
        np_random_normal_n_def Let_def
      using g [unfolded 0] d neg by simp
  next
    case (Suc j)
    have prev: "data_upto R n t v (Suc j) (ys ! j) = Some (values_at R n t v j)"
      using assms(2) [OF Suc] data_upto_lookup [of R n t v "Suc j" j]
      by (simp del: data_upto.simps)
    show ?thesis
      unfolding Suc year_step_def np_random_normal_def np_random_uniform_def
        np_random_normal_n_def Let_def
      using g [unfolded Suc] d neg by (simp add: prev del: data_upto.simps)
  qed
qed


lemma run_years_prefix:
  assumes len: "length ys = 6" and nth: "\<And>j. j < 6 \<Longrightarrow> ys ! j = 2010 + j"
    and "k \<le> 6" and "\<forall>i<k. 0 \<le> year_std_at R n v i"
  shows "run_years R n t v ys (Map.empty, rng_seed R 42) (enumerate 0 (take k ys))
       = (Inr (data_upto R n t v k), state_before R n k)"
  using assms(3,4)
proof (induction k)
  case 0
  show ?case by simp
next
  case (Suc k)
  have k: "k < 6" using Suc.prems(1) by simp
  have tk: "take (Suc k) ys = take k ys @ [ys ! k]"
    using k len by (simp add: take_Suc_conv_app_nth)
  have en: "enumerate 0 (take (Suc k) ys) = enumerate 0 (take k ys) @ [(k, 2010 + k)]"
    unfolding tk using k len nth [OF k] by (simp add: enumerate_append_eq)
  have ih: "run_years R n t v ys (Map.empty, rng_seed R 42) (enumerate 0 (take k ys))
       = (Inr (data_upto R n t v k), state_before R n k)"
    using Suc.IH Suc.prems by simp
  have st: "year_step R n t v ys (data_upto R n t v k, state_before R n k) (k, 2010 + k)
       = (Inr (data_upto R n t v (Suc k)), state_before R n (Suc k))"
  proof (rule year_step_ok)
    show "0 \<le> year_std_at R n v k" using Suc.prems(2) by simp
    show "ys ! j = 2010 + j" if "k = Suc j" for j
      using that k by (intro nth) simp
  qed
  show ?case
    unfolding en run_years_append ih by (simp add: st del: data_upto.simps state_before.simps)
qed

lemma run_years_fails:
  assumes len: "length ys = 6" and nth: "\<And>j. j < 6 \<Longrightarrow> ys ! j = 2010 + j"
    and k: "k < 6" and ok: "\<forall>i<k. 0 \<le> year_std_at R n v i" and bad: "year_std_at R n v k < 0"
  shows "fst (run_years R n t v ys (Map.empty, rng_seed R 42) (enumerate 0 ys)) = Inl ScaleNegative"
proof -
  have split: "ys = take k ys @ ys ! k # drop (Suc k) ys"
    using k len by (simp add: id_take_nth_drop)
  have "enumerate 0 ys = enumerate 0 (take k ys @ ys ! k # drop (Suc k) ys)"
    using split by simp
  also have "\<dots> = enumerate 0 (take k ys) @ (k, 2010 + k) # enumerate (Suc k) (drop (Suc k) ys)"
    using k len nth [OF k] by (simp add: enumerate_append_eq)
  finally have en: "enumerate 0 ys
      = enumerate 0 (take k ys) @ (k, 2010 + k) # enumerate (Suc k) (drop (Suc k) ys)" .
  have pre: "run_years R n t v ys (Map.empty, rng_seed R 42) (enumerate 0 (take k ys))
       = (Inr (data_upto R n t v k), state_before R n k)"
    by (rule run_years_prefix [OF len nth _ ok]) (use k in simp_all)
  have st: "fst (year_step R n t v ys (data_upto R n t v k, state_before R n k) (k, 2010 + k))
       = Inl ScaleNegative"
  proof (rule year_step_bad [OF bad])
    show "ys ! j = 2010 + j" if "k = Suc j" for j
      using that k by (intro nth) simp
  qed
  obtain s' where "year_step R n t v ys (data_upto R n t v k, state_before R n k) (k, 2010 + k)
       = (Inl ScaleNegative, s')"
    using st by (cases "year_step R n t v ys (data_upto R n t v k, state_before R n k) (k, 2010 + k)") simp
  then show ?thesis
    by (subst en) (simp add: run_years_append pre)
qed

lemma first_negative:
  assumes "\<not> (\<forall>i<m. 0 \<le> f i)"
  obtains k :: nat where "k < m" "\<forall>i<k. 0 \<le> f i" "(f k :: real) < 0"
proof -
  define k where "k = (LEAST i. i < m \<and> f i < 0)"
  from assms obtain i where i: "i < m \<and> f i < 0"
    by (auto simp: not_le)
  have a: "k < m \<and> f k < 0"
    unfolding k_def using i by (rule LeastI)
  have b: "0 \<le> f j" if "j < k" for j
  proof (rule ccontr)
    assume "\<not> 0 \<le> f j"
    with that a have "j < m \<and> f j < 0" by simp
    then have "k \<le> j" unfolding k_def by (rule Least_le)
    with that show False by simp
  qed
  from a b show thesis by (intro that [of k]) auto
qed

lemma generate_result:
  "fst (generate_evolving_data R n t v g) =
     (if \<forall>i<6. 0 \<le> year_std_at R n v i
      then Inr (data_upto R n t v 6, [2010..<2016])
      else Inl ScaleNegative)"
proof -
  have len: "length [2010..<2016] = (6::nat)" by simp
  have nth: "\<And>j. j < 6 \<Longrightarrow> [2010..<2016] ! j = 2010 + j" by (rule years_nth)
  show ?thesis
  proof (cases "\<forall>i<6. 0 \<le> year_std_at R n v i")
    case True
    have "run_years R n t v [2010..<2016] (Map.empty, rng_seed R 42)
            (enumerate 0 (take 6 [2010..<2016]))
          = (Inr (data_upto R n t v 6), state_before R n 6)"
      by (rule run_years_prefix [OF len nth _ True]) simp_all
    moreover have "take 6 [2010..<2016] = [2010..<2016::nat]"
      by simp
    ultimately have "run_years R n t v [2010..<2016] (Map.empty, rng_seed R 42)
            (enumerate 0 [2010..<2016])
          = (Inr (data_upto R n t v 6), state_before R n 6)"
      by simp
    with True show ?thesis
      unfolding generate_evolving_data_def np_random_seed_def Let_def by simp
  next
    case False
    then obtain k where k: "k < 6" "\<forall>i<k. 0 \<le> year_std_at R n v i" "year_std_at R n v k < 0"
      by (rule first_negative)
    have "fst (run_years R n t v [2010..<2016] (Map.empty, rng_seed R 42)
            (enumerate 0 [2010..<2016])) = Inl ScaleNegative"
      by (rule run_years_fails [OF len nth k])
    then obtain s' where "run_years R n t v [2010..<2016] (Map.empty, rng_seed R 42)
            (enumerate 0 [2010..<2016]) = (Inl ScaleNegative, s')"
      by (cases "run_years R n t v [2010..<2016] (Map.empty, rng_seed R 42)
            (enumerate 0 [2010..<2016])") simp
    with False show ?thesis
      unfolding generate_evolving_data_def np_random_seed_def Let_def by simp
  qed
qed


lemma generate_ignores_state:
  "fst (generate_evolving_data R n t v g) = fst (generate_evolving_data R n t v g')"
  by (simp only: generate_result)

lemma cache_sound_preserved:
  assumes "cache_sound R (cache \<sigma>)"
  shows "cache_sound R (cache (snd (cached_generate_evolving_data R n t v \<sigma>)))"
proof (cases "cache \<sigma> (n, t, v)")
  case (Some r)
  with assms show ?thesis
    by (simp add: cached_generate_evolving_data_def)
next
  case None
  obtain res s' where run: "generate_evolving_data R n t v (np_state \<sigma>) = (res, s')"
    by (cases "generate_evolving_data R n t v (np_state \<sigma>)")
  show ?thesis
  proof (cases res)
    case (Inl e)
    with None run assms show ?thesis
      by (simp add: cached_generate_evolving_data_def)
  next
    case (Inr r)
    have "fst (generate_evolving_data R n t v g) = Inr r" for g
      using run Inr generate_ignores_state [of R n t v g "np_state \<sigma>"] by simp
    with assms have "cache_sound R ((cache \<sigma>)((n, t, v) \<mapsto> r))"
      unfolding cache_sound_def by auto
    with None run Inr show ?thesis
      by (simp add: cached_generate_evolving_data_def)
  qed
qed

lemma cached_result:
  assumes "cache_sound R (cache \<sigma>)"
  shows "fst (cached_generate_evolving_data R n t v \<sigma>) = fst (generate_evolving_data R n t v g)"
proof (cases "cache \<sigma> (n, t, v)")
  case (Some r)
  with assms have "fst (generate_evolving_data R n t v g) = Inr r"
    unfolding cache_sound_def by blast
  with Some show ?thesis
    by (simp add: cached_generate_evolving_data_def)
next
  case None
  obtain res s' where run: "generate_evolving_data R n t v (np_state \<sigma>) = (res, s')"
    by (cases "generate_evolving_data R n t v (np_state \<sigma>)")
  then have "fst (cached_generate_evolving_data R n t v \<sigma>) = res"
    using None by (cases res) (simp_all add: cached_generate_evolving_data_def)
  also have "res = fst (generate_evolving_data R n t v g)"
    using run generate_ignores_state [of R n t v g "np_state \<sigma>"] by simp
  finally show ?thesis .
qed

text \<open>
  C1. Two invocations of the generator with the same \<open>n_obs\<close>, \<open>trend_str\<close> and \<open>vol\<close>
  return the same result, element for element, in whatever state they find the
  process-wide random generator and whatever the cache already holds (the second of
  two consecutive calls finds the cache filled by the first): the body reseeds the
  generator with 42 before it draws, and a cached result is the body's result. This
  holds for every configuration, the valid ones (\<open>n_obs \<ge> 1\<close>, \<open>vol > 0\<close>) among them.
\<close>

theorem generate_deterministic:
  assumes "cache_sound R (cache \<sigma>)" and "cache_sound R (cache \<sigma>')"
  shows "fst (cached_generate_evolving_data R n_obs trend_str vol \<sigma>)
       = fst (cached_generate_evolving_data R n_obs trend_str vol \<sigma>')"
  using cached_result [OF assms(1)] cached_result [OF assms(2)] by simp

theorem generate_deterministic_witness:
  "cache_sound lcg (cache \<lparr>np_state = 0, cache = Map.empty\<rparr>)
   \<and> cache_sound lcg
        (cache (snd (cached_generate_evolving_data lcg 1 (1 / 2) 1 \<lparr>np_state = 0, cache = Map.empty\<rparr>)))
   \<and> fst (cached_generate_evolving_data lcg 1 (1 / 2) 1 \<lparr>np_state = 0, cache = Map.empty\<rparr>)
     = fst (cached_generate_evolving_data lcg 1 (1 / 2) 1
         (snd (cached_generate_evolving_data lcg 1 (1 / 2) 1 \<lparr>np_state = 0, cache = Map.empty\<rparr>)))"
proof -
  have a: "cache_sound lcg (cache \<lparr>np_state = 0::nat, cache = Map.empty\<rparr>)"
    by (simp add: cache_sound_def)
  have b: "cache_sound lcg
        (cache (snd (cached_generate_evolving_data lcg 1 (1 / 2) 1 \<lparr>np_state = 0, cache = Map.empty\<rparr>)))"
    using a by (rule cache_sound_preserved)
  show ?thesis
    using a b generate_deterministic [OF a b, of 1 "1 / 2" 1] by simp
qed


lemma state_before_pos:
  "0 < i \<Longrightarrow> state_before R n i = snd (snd (snd (period_draws R n (state_before R n (i - 1)))))"
  by (cases i) simp_all

lemma values_at_pos:
  "0 < i \<Longrightarrow> values_at R n t v i =
     map2 (\<lambda>p z. 0.7 * p + 0.3 * year_mean_at R n t i + z)
       (values_at R n t v (i - 1))
       (map (\<lambda>z. 0 + year_std_at R n v i * z) (normal_draws_at R n i))"
  by (cases i) simp_all

lemma data_upto_pos:
  "0 < k \<Longrightarrow> data_upto R n t v k =
     (data_upto R n t v (k - 1))(2010 + (k - 1) \<mapsto> values_at R n t v (k - 1))"
  by (cases k) simp_all

lemma all_less_6: "(\<forall>i<6. P i) \<longleftrightarrow> P 0 \<and> P 1 \<and> P 2 \<and> P 3 \<and> P 4 \<and> P (5::nat)"
proof -
  have "{..<6::nat} = {0, 1, 2, 3, 4, 5}" by auto
  then have "(\<forall>i\<in>{..<6}. P i) \<longleftrightarrow> P 0 \<and> P 1 \<and> P 2 \<and> P 3 \<and> P 4 \<and> P (5::nat)"
    by simp
  then show ?thesis
    unfolding Ball_def lessThan_iff .
qed

lemma lcg_sel:
  "rng_seed lcg k = k mod 16"
  "rng_gauss lcg s = ((real (lcg_next s) - 8) / 4, lcg_next s)"
  "rng_double lcg s = (real (lcg_next s) / 16, lcg_next s)"
  by (simp_all add: lcg_def)

lemma rng_ok_lcg: "rng_ok lcg"
  by (simp add: rng_ok_def lcg_sel lcg_next_def)

lemma year_std_at_lower:
  assumes "rng_ok R"
  shows "base_std * v - 2 \<le> year_std_at R n v i"
proof -
  have "0 \<le> fst (rng_double R s)" for s
    using assms by (simp add: rng_ok_def)
  then show ?thesis
    by (simp add: year_std_at_def period_draws_def split: prod.splits) (metis fst_conv)
qed

text \<open>
  C2. When generation returns its data, then for every pass \<open>i \<ge> 1\<close> of the loop the
  array stored for that year has, at each position \<open>j\<close>, the value \<open>0.7\<close> times the
  previous year's value at \<open>j\<close>, plus \<open>0.3\<close> times the pass's \<open>year_mean\<close>, plus the
  pass's \<open>year_std\<close> times the \<open>j\<close>-th of the \<open>n_obs\<close> standard normal numbers drawn in
  that pass after the two jitter draws. The weights are the constants of line 48.
\<close>

theorem blend_of_previous_period:
  assumes "fst (generate_evolving_data R n_obs trend_str vol g) = Inr (data, years)"
    and "1 \<le> i" and "i < 6"
  shows "\<exists>prev_values values.
           data (years ! (i - 1)) = Some prev_values \<and> data (years ! i) = Some values
         \<and> length prev_values = n_obs \<and> length values = n_obs
         \<and> (\<forall>j<n_obs. values ! j =
               0.7 * prev_values ! j + 0.3 * year_mean_at R n_obs trend_str i
                 + year_std_at R n_obs vol i * normal_draws_at R n_obs i ! j)"
proof -
  from assms(1) have d: "data = data_upto R n_obs trend_str vol 6" and y: "years = [2010..<2016]"
    by (simp_all add: generate_result split: if_splits)
  from assms(2) obtain k where i: "i = Suc k"
    by (cases i) auto
  have k: "k < 6" using assms(3) i by simp
  have yk: "years ! k = 2010 + k" and yi: "years ! i = 2010 + i"
    unfolding y using k assms(3) by (simp_all only: years_nth)
  have p: "data (years ! (i - 1)) = Some (values_at R n_obs trend_str vol k)"
    unfolding d i using yk k by (simp add: data_upto_lookup del: data_upto.simps)
  have c: "data (years ! i) = Some (values_at R n_obs trend_str vol i)"
    unfolding d yi using assms(3) by (simp add: data_upto_lookup del: data_upto.simps)
  have e: "values_at R n_obs trend_str vol i ! j =
             0.7 * values_at R n_obs trend_str vol k ! j + 0.3 * year_mean_at R n_obs trend_str i
               + year_std_at R n_obs vol i * normal_draws_at R n_obs i ! j" if "j < n_obs" for j
    unfolding i using that by (simp add: values_at_length normal_draws_at_length)
  from p c e show ?thesis
    by (simp add: values_at_length)
qed




lemma gauss_n_2:
  "gauss_n R 2 s =
     (case rng_gauss R s of (z1, s1) \<Rightarrow> case rng_gauss R s1 of (z2, s2) \<Rightarrow> ([z1, z2], s2))"
  by (simp add: numeral_2_eq_2 split: prod.splits)

lemma lcg_draws_2:
  "period_draws lcg 2 s =
     ((real (lcg_next s) - 8) / 4, real (lcg_next (lcg_next s)) / 16,
      [(real (lcg_next (lcg_next (lcg_next s))) - 8) / 4,
       (real (lcg_next (lcg_next (lcg_next (lcg_next s)))) - 8) / 4],
      lcg_next (lcg_next (lcg_next (lcg_next s))))"
  by (simp add: period_draws_def lcg_sel gauss_n_2)

lemma lcg_states_2:
  "state_before lcg 2 0 = 10" "state_before lcg 2 (Suc 0) = 6" "state_before lcg 2 2 = 2"
  "state_before lcg 2 3 = 14" "state_before lcg 2 4 = 10" "state_before lcg 2 5 = 6"
proof -
  show s0: "state_before lcg 2 0 = 10"
    by (simp add: lcg_sel)
  show s1: "state_before lcg 2 (Suc 0) = 6"
    using state_before_pos [of "Suc 0" lcg 2]
    by (simp add: s0 lcg_draws_2 lcg_next_def del: state_before.simps)
  show s2: "state_before lcg 2 2 = 2"
    using state_before_pos [of 2 lcg 2]
    by (simp add: s1 lcg_draws_2 lcg_next_def del: state_before.simps)
  show s3: "state_before lcg 2 3 = 14"
    using state_before_pos [of 3 lcg 2]
    by (simp add: s2 lcg_draws_2 lcg_next_def del: state_before.simps)
  show s4: "state_before lcg 2 4 = 10"
    using state_before_pos [of 4 lcg 2]
    by (simp add: s3 lcg_draws_2 lcg_next_def del: state_before.simps)
  show s5: "state_before lcg 2 5 = 6"
    using state_before_pos [of 5 lcg 2]
    by (simp add: s4 lcg_draws_2 lcg_next_def del: state_before.simps)
qed

lemmas lcg_eval_2 = year_mean_at_def year_std_at_def normal_draws_at_def lcg_draws_2
  lcg_states_2 lcg_next_def base_mean_def base_std_def

lemma lcg_values_2:
  "values_at lcg 2 (1 / 2) 1 0 = [169 / 4, 46]"
  "values_at lcg 2 (1 / 2) 1 (Suc 0) = [827 / 40, 134 / 5]"
  "values_at lcg 2 (1 / 2) 1 2 = [18349 / 400, 5341 / 100]"
  "values_at lcg 2 (1 / 2) 1 3 = [203243 / 4000, 60087 / 1000]"
  "values_at lcg 2 (1 / 2) 1 4 = [1638701 / 40000, 512109 / 10000]"
  "values_at lcg 2 (1 / 2) 1 5 = [8150907 / 400000, 3104763 / 100000]"
proof -
  show v0: "values_at lcg 2 (1 / 2) 1 0 = [169 / 4, 46]"
    by (simp add: lcg_eval_2 del: state_before.simps)
  show v1: "values_at lcg 2 (1 / 2) 1 (Suc 0) = [827 / 40, 134 / 5]"
    using values_at_pos [of "Suc 0" lcg 2 "1 / 2" 1]
    by (simp add: v0 lcg_eval_2 del: values_at.simps state_before.simps)
  show v2: "values_at lcg 2 (1 / 2) 1 2 = [18349 / 400, 5341 / 100]"
    using values_at_pos [of 2 lcg 2 "1 / 2" 1]
    by (simp add: v1 lcg_eval_2 del: values_at.simps state_before.simps)
  show v3: "values_at lcg 2 (1 / 2) 1 3 = [203243 / 4000, 60087 / 1000]"
    using values_at_pos [of 3 lcg 2 "1 / 2" 1]
    by (simp add: v2 lcg_eval_2 del: values_at.simps state_before.simps)
  show v4: "values_at lcg 2 (1 / 2) 1 4 = [1638701 / 40000, 512109 / 10000]"
    using values_at_pos [of 4 lcg 2 "1 / 2" 1]
    by (simp add: v3 lcg_eval_2 del: values_at.simps state_before.simps)
  show v5: "values_at lcg 2 (1 / 2) 1 5 = [8150907 / 400000, 3104763 / 100000]"
    using values_at_pos [of 5 lcg 2 "1 / 2" 1]
    by (simp add: v4 lcg_eval_2 del: values_at.simps state_before.simps)
qed

lemma data_upto_6:
  "data_upto R n t v 6 =
     [2010 \<mapsto> values_at R n t v 0, 2011 \<mapsto> values_at R n t v (Suc 0),
      2012 \<mapsto> values_at R n t v 2, 2013 \<mapsto> values_at R n t v 3,
      2014 \<mapsto> values_at R n t v 4, 2015 \<mapsto> values_at R n t v 5]"
  by (simp add: data_upto_pos del: values_at.simps data_upto.simps(2))

lemma lcg_data_2: "data_upto lcg 2 (1 / 2) 1 6 = lcg_data"
  by (simp only: data_upto_6 lcg_values_2 lcg_data_def)


lemma generate_success:
  assumes "\<forall>i<6. 0 \<le> year_std_at R n v i"
  shows "fst (generate_evolving_data R n t v g) = Inr (data_upto R n t v 6, [2010..<2016])"
  unfolding generate_result using assms by (rule if_P)

lemma lcg_generate_2:
  "fst (generate_evolving_data lcg 2 (1 / 2) 1 g) = Inr (lcg_data, [2010..<2016])"
proof -
  have "\<forall>i<6. 0 \<le> year_std_at lcg 2 1 i"
    unfolding all_less_6 by (simp add: lcg_eval_2 del: state_before.simps)
  then have "fst (generate_evolving_data lcg 2 (1 / 2) 1 g)
      = Inr (data_upto lcg 2 (1 / 2) 1 6, [2010..<2016])"
    by (rule generate_success)
  then show ?thesis
    by (simp only: lcg_data_2)
qed

theorem blend_of_previous_period_witness:
  "fst (generate_evolving_data lcg 2 (1 / 2) 1 0) = Inr (lcg_data, [2010..<2016])
   \<and> (1::nat) \<le> 2 \<and> (2::nat) < 6
   \<and> (\<exists>prev_values values.
           lcg_data ([2010..<2016] ! (2 - 1)) = Some prev_values
         \<and> lcg_data ([2010..<2016] ! 2) = Some values
         \<and> length prev_values = 2 \<and> length values = 2
         \<and> (\<forall>j<2. values ! j =
               0.7 * prev_values ! j + 0.3 * year_mean_at lcg 2 (1 / 2) 2
                 + year_std_at lcg 2 1 2 * normal_draws_at lcg 2 2 ! j))"
proof -
  note h = lcg_generate_2 [of 0]
  have c: "(1::nat) \<le> 2" and d: "(2::nat) < 6"
    by simp_all
  show ?thesis
    by (intro conjI h c d blend_of_previous_period [OF h c d])
qed

lemma generate_failure:
  assumes "k < 6" and "year_std_at R n v k < 0"
  shows "fst (generate_evolving_data R n t v g) = Inl ScaleNegative"
proof -
  from assms have "\<not> (\<forall>i<6. 0 \<le> year_std_at R n v i)"
    by (auto simp: not_le)
  then show ?thesis
    unfolding generate_result by (rule if_not_P)
qed

lemma generate_error_cases:
  assumes "fst (generate_evolving_data R n t v g) = Inl e"
  shows "e = ScaleNegative \<and> (\<exists>k<6. year_std_at R n v k < 0)"
  using assms unfolding generate_result by (auto simp: not_le split: if_splits)

lemma values_at_nil: "values_at R 0 t v i = []"
  using values_at_length [of R 0 t v i] by simp

lemma spread_nonneg:
  assumes "rng_ok R" and "2 / 15 \<le> v"
  shows "0 \<le> year_std_at R n v i"
proof -
  have "0 \<le> base_std * v - 2"
    using assms(2) by (simp add: base_std_def)
  also have "\<dots> \<le> year_std_at R n v i"
    using assms(1) by (rule year_std_at_lower)
  finally show ?thesis .
qed

text \<open>
  C9 asks that the spread handed to every normal draw be non-negative whenever
  \<open>n_obs \<ge> 1\<close> and \<open>vol > 0\<close>. The code computes \<open>year_std\<close> as \<open>15 * vol\<close> plus a jitter
  drawn from \<open>[-2, 2)\<close> and hands it on unchecked, so it is negative whenever the jitter
  is below \<open>- 15 * vol\<close>; the volatility slider of line 23 starts at \<open>0.1\<close>, where that
  is any jitter below \<open>-1.5\<close>. What the code does then: if \<open>year_std\<close> is negative in
  some pass \<open>k < 6\<close>, generation ends with numpy's \<^verbatim>\<open>ValueError("scale < 0")\<close> and returns
  no data.
\<close>

theorem negative_spread_raises:
  assumes "k < 6" and "year_std_at R n_obs vol k < 0"
  shows "fst (generate_evolving_data R n_obs trend_str vol g) = Inl ScaleNegative"
  using assms by (rule generate_failure)

theorem negative_spread_raises_witness:
  "(2::nat) < 6 \<and> year_std_at lcg 2 (1 / 10) 2 < 0 \<and> (1::nat) \<le> 2 \<and> (0::real) < 1 / 10
   \<and> rng_ok lcg
   \<and> fst (generate_evolving_data lcg 2 (1 / 2) (1 / 10) 0) = Inl ScaleNegative"
proof -
  have a: "(2::nat) < 6"
    by simp
  have b: "year_std_at lcg 2 (1 / 10) 2 < 0"
    by (simp add: lcg_eval_2 del: state_before.simps)
  show ?thesis
    using a b rng_ok_lcg negative_spread_raises [OF a b, of "1 / 2" 0] by simp
qed

text \<open>
  C4, as stated, fails. With \<open>n_obs = 0\<close> (and \<open>vol = 1\<close>) generation raises nothing and
  returns six arrays, all empty. With \<open>vol = 0\<close> (and \<open>n_obs = 2\<close>) the first pass stores
  the array of 2010 before anything is raised, and what is raised in the second pass
  is numpy's \<^verbatim>\<open>ValueError("scale < 0")\<close>.
\<close>

theorem zero_sample_count_accepted:
  "fst (generate_evolving_data lcg 0 (1 / 2) 1 0) =
     Inr ([2010 \<mapsto> [], 2011 \<mapsto> [], 2012 \<mapsto> [], 2013 \<mapsto> [], 2014 \<mapsto> [], 2015 \<mapsto> []],
          [2010..<2016])
   \<and> fst (run_years lcg 2 (1 / 2) 0 [2010..<2016] (Map.empty, rng_seed lcg 42) [(0, 2010)]) =
     Inr [2010 \<mapsto> [107 / 2, 107 / 2]]
   \<and> fst (generate_evolving_data lcg 2 (1 / 2) 0 0) = Inl ScaleNegative"
proof -
  have "\<forall>i<6. 0 \<le> year_std_at lcg 0 1 i"
    using rng_ok_lcg by (simp add: spread_nonneg)
  then have a: "fst (generate_evolving_data lcg 0 (1 / 2) 1 0)
      = Inr (data_upto lcg 0 (1 / 2) 1 6, [2010..<2016])"
    by (rule generate_success)
  have a': "data_upto lcg 0 (1 / 2) 1 6
      = [2010 \<mapsto> [], 2011 \<mapsto> [], 2012 \<mapsto> [], 2013 \<mapsto> [], 2014 \<mapsto> [], 2015 \<mapsto> []]"
    by (simp only: data_upto_6 values_at_nil)
  have "0 \<le> year_std_at lcg 2 0 0"
    by (simp add: lcg_eval_2 del: state_before.simps)
  then have "year_step lcg 2 (1 / 2) 0 [2010..<2016]
        (data_upto lcg 2 (1 / 2) 0 0, state_before lcg 2 0) (0, 2010 + 0)
      = (Inr (data_upto lcg 2 (1 / 2) 0 (Suc 0)), state_before lcg 2 (Suc 0))"
    by (rule year_step_ok) simp
  moreover have "values_at lcg 2 (1 / 2) 0 0 = [107 / 2, 107 / 2]"
    by (simp add: lcg_eval_2 del: state_before.simps)
  ultimately have b: "fst (run_years lcg 2 (1 / 2) 0 [2010..<2016]
        (Map.empty, rng_seed lcg 42) [(0, 2010)]) = Inr [2010 \<mapsto> [107 / 2, 107 / 2]]"
    by (simp del: values_at.simps)
  have "year_std_at lcg 2 0 (Suc 0) < 0"
    by (simp add: lcg_eval_2 del: state_before.simps)
  then have c: "fst (generate_evolving_data lcg 2 (1 / 2) 0 0) = Inl ScaleNegative"
    by (intro generate_failure [of "Suc 0"]) simp_all
  from a a' b c show ?thesis
    by simp
qed

text \<open>
  C4, amended. The generator does not check its configuration. With \<open>n_obs = 0\<close> and
  \<open>vol \<ge> 2 / 15\<close> it raises nothing and returns six empty arrays. With \<open>vol = 0\<close> the
  only error it can raise is numpy's rejection of a negative spread, and it raises it
  only when the spread of some pass, which is then the jitter alone, is negative.
\<close>

theorem zero_inputs_not_checked:
  assumes "rng_ok R"
  shows "(2 / 15 \<le> vol \<longrightarrow>
            fst (generate_evolving_data R 0 trend_str vol g) =
              Inr ([2010 \<mapsto> [], 2011 \<mapsto> [], 2012 \<mapsto> [], 2013 \<mapsto> [], 2014 \<mapsto> [],
                    2015 \<mapsto> []], [2010..<2016]))
       \<and> (\<forall>e. fst (generate_evolving_data R n_obs trend_str 0 g) = Inl e \<longrightarrow>
              e = ScaleNegative \<and> (\<exists>k<6. year_std_at R n_obs 0 k < 0))"
proof (intro conjI impI allI)
  assume v: "2 / 15 \<le> vol"
  have "\<forall>i<6. 0 \<le> year_std_at R 0 vol i"
    using assms v by (simp add: spread_nonneg)
  then have "fst (generate_evolving_data R 0 trend_str vol g)
      = Inr (data_upto R 0 trend_str vol 6, [2010..<2016])"
    by (rule generate_success)
  then show "fst (generate_evolving_data R 0 trend_str vol g) =
      Inr ([2010 \<mapsto> [], 2011 \<mapsto> [], 2012 \<mapsto> [], 2013 \<mapsto> [], 2014 \<mapsto> [], 2015 \<mapsto> []],
           [2010..<2016])"
    by (simp only: data_upto_6 values_at_nil)
next
  fix e
  assume "fst (generate_evolving_data R n_obs trend_str 0 g) = Inl e"
  then have "e = ScaleNegative \<and> (\<exists>k<6. year_std_at R n_obs 0 k < 0)"
    by (rule generate_error_cases)
  then show "e = ScaleNegative" and "\<exists>k<6. year_std_at R n_obs 0 k < 0"
    by simp_all
qed

theorem zero_inputs_not_checked_witness:
  "rng_ok lcg \<and> (2 / 15 \<le> (1::real))
   \<and> fst (generate_evolving_data lcg 0 (1 / 2) 1 0) =
        Inr ([2010 \<mapsto> [], 2011 \<mapsto> [], 2012 \<mapsto> [], 2013 \<mapsto> [], 2014 \<mapsto> [], 2015 \<mapsto> []],
             [2010..<2016])
   \<and> fst (generate_evolving_data lcg 2 (1 / 2) 0 0) = Inl ScaleNegative
   \<and> (\<exists>k<6. year_std_at lcg 2 0 k < 0)"
proof -
  have v: "2 / 15 \<le> (1::real)"
    by simp
  have "year_std_at lcg 2 0 (Suc 0) < 0"
    by (simp add: lcg_eval_2 del: state_before.simps)
  then have e: "fst (generate_evolving_data lcg 2 (1 / 2) 0 0) = Inl ScaleNegative"
    by (intro generate_failure [of "Suc 0"]) simp_all
  show ?thesis
    using v e zero_inputs_not_checked [OF rng_ok_lcg, of 1 "1 / 2" 0 2] rng_ok_lcg
    by simp
qed

section \<open>Properties of the quartiles and the animation\<close>

lemma years_list: "[2010..<2016] = [2010, 2011, 2012, 2013, 2014, 2015 :: nat]"
  by (simp add: upt_rec)

lemma percentile_bounds:
  assumes ne: "a \<noteq> []" and q0: "0 \<le> q" and q1: "q \<le> 100"
  shows "\<exists>x. percentile a q = Inr x \<and> Min (set a) \<le> x \<and> x \<le> Max (set a)"
proof -
  define s where "s = sort a"
  define n where "n = length a"
  define h where "h = real (n - 1) * (q / 100)"
  define lo where "lo = nat \<lfloor>h\<rfloor>"
  define hi where "hi = min (lo + 1) (n - 1)"
  define x where "x = s ! lo + (h - real lo) * (s ! hi - s ! lo)"
  have n: "0 < n"
    using ne by (simp add: n_def)
  have h0: "0 \<le> h"
    using q0 by (simp add: h_def)
  have "real (n - 1) * (q / 100) \<le> real (n - 1) * 1"
    using q1 by (intro mult_left_mono) simp_all
  then have h1: "h \<le> real (n - 1)"
    by (simp add: h_def)
  have lo_le: "real lo \<le> h"
    using h0 by (simp add: lo_def)
  have lo_gt: "h < real lo + 1"
    using h0 unfolding lo_def by linarith
  have lo_n: "lo \<le> n - 1"
    using lo_le h1 by linarith
  have hi_n: "hi \<le> n - 1" and lo_hi: "lo \<le> hi"
    using lo_n by (simp_all add: hi_def)
  have len: "length s = n"
    by (simp add: s_def n_def)
  have lo_lt: "lo < length s" and hi_lt: "hi < length s"
    using lo_n hi_n n len by simp_all
  have mono: "s ! lo \<le> s ! hi"
    using lo_hi hi_lt by (simp add: s_def sorted_nth_mono)
  have set: "set s = set a"
    by (simp add: s_def)
  have lo_in: "s ! lo \<in> set a" and hi_in: "s ! hi \<in> set a"
    using lo_lt hi_lt set nth_mem by blast+
  have g0: "0 \<le> h - real lo" and g1: "h - real lo \<le> 1"
    using lo_le lo_gt by simp_all
  have d0: "0 \<le> s ! hi - s ! lo"
    using mono by simp
  have "0 \<le> (h - real lo) * (s ! hi - s ! lo)"
    using g0 d0 by (rule mult_nonneg_nonneg)
  then have lower: "s ! lo \<le> x"
    by (simp add: x_def)
  have "(h - real lo) * (s ! hi - s ! lo) \<le> 1 * (s ! hi - s ! lo)"
    using g1 d0 by (rule mult_right_mono)
  then have upper: "x \<le> s ! hi"
    by (simp add: x_def)
  have "Min (set a) \<le> s ! lo"
    using lo_in by simp
  with lower have a: "Min (set a) \<le> x"
    by simp
  have "s ! hi \<le> Max (set a)"
    using hi_in by simp
  with upper have b: "x \<le> Max (set a)"
    by simp
  have "percentile a q = Inr x"
    using ne q0 q1
    by (simp add: percentile_def Let_def x_def hi_def lo_def h_def n_def s_def)
  with a b show ?thesis
    by blast
qed

lemma make_frame_ok:
  assumes "current_data \<noteq> []"
  shows "\<exists>q25 q50 q75.
           make_frame n xr year current_data =
             Inr \<lparr>frame_year = year, cdf_x = fst (empirical_cdf current_data),
                  cdf_y = snd (empirical_cdf current_data),
                  quartile_x = [q25, q50, q75], quartile_y = [0.25, 0.50, 0.75],
                  x_range = xr, sample_size = n\<rparr>
         \<and> Min (set current_data) \<le> q25 \<and> q25 \<le> Max (set current_data)
         \<and> Min (set current_data) \<le> q50 \<and> q50 \<le> Max (set current_data)
         \<and> Min (set current_data) \<le> q75 \<and> q75 \<le> Max (set current_data)"
proof -
  obtain q25 where a: "percentile current_data 25 = Inr q25"
      "Min (set current_data) \<le> q25" "q25 \<le> Max (set current_data)"
    using percentile_bounds [OF assms, of 25] by auto
  obtain q50 where b: "percentile current_data 50 = Inr q50"
      "Min (set current_data) \<le> q50" "q50 \<le> Max (set current_data)"
    using percentile_bounds [OF assms, of 50] by auto
  obtain q75 where c: "percentile current_data 75 = Inr q75"
      "Min (set current_data) \<le> q75" "q75 \<le> Max (set current_data)"
    using percentile_bounds [OF assms, of 75] by auto
  have "make_frame n xr year current_data =
          Inr \<lparr>frame_year = year, cdf_x = fst (empirical_cdf current_data),
               cdf_y = snd (empirical_cdf current_data),
               quartile_x = [q25, q50, q75], quartile_y = [0.25, 0.50, 0.75],
               x_range = xr, sample_size = n\<rparr>"
    by (simp add: make_frame_def a(1) b(1) c(1) split: prod.splits)
  with a b c show ?thesis
    by blast
qed

lemma percentile_eval:
  "percentile [3, 1, 2, 5] 25 = Inr (7 / 4)"
  "percentile [3, 1, 2, 5] 50 = Inr (5 / 2)"
  "percentile [3, 1, 2, 5] 75 = Inr (7 / 2)"
  by (simp_all add: percentile_def Let_def)

text \<open>
  C8. For every non-empty sample the frame is built, the three quartile markers have
  the ordinates \<open>0.25\<close>, \<open>0.50\<close> and \<open>0.75\<close> whatever the length of the sample, and each
  of the three quartile values, computed by linear interpolation between neighbours
  of the sorted sample, lies between the least and the greatest value of the sample.
\<close>

theorem quartile_markers:
  assumes "current_data \<noteq> []"
  shows "\<exists>fig. make_frame n_observations xr year current_data = Inr fig
             \<and> quartile_y fig = [0.25, 0.50, 0.75]
             \<and> length (quartile_x fig) = 3
             \<and> (\<forall>x\<in>set (quartile_x fig).
                   Min (set current_data) \<le> x \<and> x \<le> Max (set current_data))"
proof -
  from make_frame_ok [OF assms, of n_observations xr year]
  obtain q25 q50 q75 where
    "make_frame n_observations xr year current_data =
       Inr \<lparr>frame_year = year, cdf_x = fst (empirical_cdf current_data),
            cdf_y = snd (empirical_cdf current_data),
            quartile_x = [q25, q50, q75], quartile_y = [0.25, 0.50, 0.75],
            x_range = xr, sample_size = n_observations\<rparr>"
    "Min (set current_data) \<le> q25" "q25 \<le> Max (set current_data)"
    "Min (set current_data) \<le> q50" "q50 \<le> Max (set current_data)"
    "Min (set current_data) \<le> q75" "q75 \<le> Max (set current_data)"
    by blast
  then show ?thesis
    by simp
qed

theorem quartile_markers_witness:
  "[3, 1, 2, 5 :: real] \<noteq> []
   \<and> make_frame 4 (- 4, 10) 2010 [3, 1, 2, 5] =
       Inr \<lparr>frame_year = 2010, cdf_x = [1, 2, 3, 5], cdf_y = [1 / 4, 1 / 2, 3 / 4, 1],
            quartile_x = [7 / 4, 5 / 2, 7 / 2], quartile_y = [0.25, 0.50, 0.75],
            x_range = (- 4, 10), sample_size = 4\<rparr>
   \<and> (\<exists>fig. make_frame 4 (- 4, 10) 2010 [3, 1, 2, 5] = Inr fig
          \<and> quartile_y fig = [0.25, 0.50, 0.75]
          \<and> length (quartile_x fig) = 3
          \<and> (\<forall>x\<in>set (quartile_x fig).
                Min (set [3, 1, 2, 5]) \<le> x \<and> x \<le> Max (set [3, 1, 2, 5])))"
proof -
  have ne: "[3, 1, 2, 5 :: real] \<noteq> []"
    by simp
  have ev: "make_frame 4 (- 4, 10) 2010 [3, 1, 2, 5] =
       Inr \<lparr>frame_year = 2010, cdf_x = [1, 2, 3, 5], cdf_y = [1 / 4, 1 / 2, 3 / 4, 1],
            quartile_x = [7 / 4, 5 / 2, 7 / 2], quartile_y = [0.25, 0.50, 0.75],
            x_range = (- 4, 10), sample_size = 4\<rparr>"
    by (simp add: make_frame_def empirical_cdf_def percentile_eval upt_rec)
  show ?thesis
    by (intro conjI ne ev quartile_markers [OF ne])
qed

lemma charts_append: "charts (xs @ ys) = charts xs @ charts ys"
  by (induction xs rule: charts.induct) simp_all

lemma progress_reports_append:
  "progress_reports (xs @ ys) = progress_reports xs @ progress_reports ys"
  by (induction xs rule: progress_reports.induct) simp_all

lemma frame_loop_stopped:
  "frame_loop True data_dict m n xr sp ps = ([], None)"
  by (cases ps) auto

lemma has_samplesD:
  assumes "has_samples data_dict ys" and "year \<in> set ys"
  obtains a where "data_dict year = Some a" "a \<noteq> []"
  using assms by (auto simp: has_samples_def split: option.splits)

lemma has_samples_Cons:
  "has_samples data_dict (y # ys) \<Longrightarrow> has_samples data_dict ys"
  by (simp add: has_samples_def)

lemma frame_loop_runs:
  assumes "has_samples data_dict ys"
  shows "\<exists>evs. frame_loop False data_dict m n xr sp (enumerate k ys) = (evs, None)
             \<and> map frame_year (charts evs) = ys
             \<and> progress_reports evs = map (\<lambda>i. real (i + 1) / real m) [k..<k + length ys]"
  using assms
proof (induction ys arbitrary: k)
  case Nil
  show ?case by simp
next
  case (Cons y ys)
  have "y \<in> set (y # ys)"
    by simp
  with Cons.prems obtain a where a: "data_dict y = Some a" "a \<noteq> []"
    by (rule has_samplesD)
  from make_frame_ok [OF a(2), of n xr y] obtain fig where
    fig: "make_frame n xr y a = Inr fig" "frame_year fig = y"
    by force
  from Cons.IH [of "Suc k"] Cons.prems obtain evs where
    evs: "frame_loop False data_dict m n xr sp (enumerate (Suc k) ys) = (evs, None)"
      "map frame_year (charts evs) = ys"
      "progress_reports evs = map (\<lambda>i. real (i + 1) / real m) [Suc k..<Suc k + length ys]"
    using has_samples_Cons by blast
  have "[k..<k + length (y # ys)] = k # [Suc k..<k + length (y # ys)]"
    by (rule upt_conv_Cons) simp
  then have "[k..<k + length (y # ys)] = k # [Suc k..<Suc k + length ys]"
    by simp
  with a fig evs show ?case
    by (simp add: Let_def del: upt_Suc)
qed

lemma lookup_all_ok:
  assumes "has_samples data_dict ys"
  shows "\<exists>arrays. lookup_all data_dict ys = Inr arrays \<and> length arrays = length ys
           \<and> (\<forall>a\<in>set arrays. a \<noteq> [])"
  using assms
proof (induction ys)
  case Nil
  show ?case by simp
next
  case (Cons y ys)
  have "y \<in> set (y # ys)"
    by simp
  with Cons.prems obtain a where a: "data_dict y = Some a" "a \<noteq> []"
    by (rule has_samplesD)
  from Cons.IH Cons.prems obtain arrays where
    "lookup_all data_dict ys = Inr arrays" "length arrays = length ys" "\<forall>a\<in>set arrays. a \<noteq> []"
    using has_samples_Cons by blast
  with a show ?case by simp
qed

lemma animation_cases:
  assumes "has_samples data_dict ys" and "ys \<noteq> []"
  shows "animation True True data_dict ys n sp
           = ([ProgressBar 0, StatusPlaceholder, ProgressCleared, StatusCleared, Success], None)"
    and "\<exists>evs xr. animation True False data_dict ys n sp
                  = (ProgressBar 0 # StatusPlaceholder # evs
                       @ [ProgressCleared, StatusCleared, Success], None)
             \<and> map frame_year (charts evs) = ys
             \<and> progress_reports evs
                  = map (\<lambda>i. real (i + 1) / real (length ys)) [0..<0 + length ys]
             \<and> frame_loop False data_dict (length ys) n xr sp (enumerate 0 ys) = (evs, None)"
proof -
  from lookup_all_ok [OF assms(1)] obtain arrays where
    ar: "lookup_all data_dict ys = Inr arrays" "length arrays = length ys"
      "\<forall>a\<in>set arrays. a \<noteq> []"
    by blast
  from ar(2) assms(2) obtain a as where "arrays = a # as"
    by (cases arrays) auto
  with ar(3) have ne: "concat arrays \<noteq> []"
    by simp
  show "animation True True data_dict ys n sp
           = ([ProgressBar 0, StatusPlaceholder, ProgressCleared, StatusCleared, Success], None)"
    using ar(1) ne by (simp add: animation_def Let_def frame_loop_stopped)
  from frame_loop_runs [OF assms(1), of "length ys" n
      "(Min (set (concat arrays)) - 5, Max (set (concat arrays)) + 5)" sp 0]
  obtain evs where
    evs: "frame_loop False data_dict (length ys) n
        (Min (set (concat arrays)) - 5, Max (set (concat arrays)) + 5) sp (enumerate 0 ys)
        = (evs, None)"
      "map frame_year (charts evs) = ys"
      "progress_reports evs = map (\<lambda>i. real (i + 1) / real (length ys)) [0..<0 + length ys]"
    by blast
  have "animation True False data_dict ys n sp
      = (ProgressBar 0 # StatusPlaceholder # evs @ [ProgressCleared, StatusCleared, Success],
         None)"
    using ar(1) ne evs(1) by (simp add: animation_def Let_def)
  with evs show "\<exists>evs xr. animation True False data_dict ys n sp
                  = (ProgressBar 0 # StatusPlaceholder # evs
                       @ [ProgressCleared, StatusCleared, Success], None)
             \<and> map frame_year (charts evs) = ys
             \<and> progress_reports evs
                  = map (\<lambda>i. real (i + 1) / real (length ys)) [0..<0 + length ys]
             \<and> frame_loop False data_dict (length ys) n xr sp (enumerate 0 ys) = (evs, None)"
    by blast
qed

lemma six_fractions:
  "map (\<lambda>i. real (i + 1) / real (length [2010..<2016])) [0..<0 + length [2010..<2016]]
     = [1 / 6, 2 / 6, 3 / 6, 4 / 6, 5 / 6, 1]"
  by (simp add: upt_rec)

lemma generate_has_samples:
  assumes "fst (generate_evolving_data R n t v g) = Inr (data, ys)" and "1 \<le> n"
  shows "has_samples data ys"
proof -
  from assms(1) have d: "data = data_upto R n t v 6" and y: "ys = [2010..<2016]"
    by (simp_all add: generate_result split: if_splits)
  have "case data year of None \<Rightarrow> False | Some a \<Rightarrow> a \<noteq> []" if "year \<in> set ys" for year
  proof -
    from that obtain i where i: "year = 2010 + i" "i < 6"
      unfolding y by (auto simp: le_iff_add)
    have "data year = Some (values_at R n t v i)"
      unfolding d i(1) using i(2) by (simp add: data_upto_lookup del: data_upto.simps)
    moreover have "values_at R n t v i \<noteq> []"
      using values_at_length [of R n t v i] assms(2) by auto
    ultimately show ?thesis
      by simp
  qed
  then show ?thesis
    by (simp add: has_samples_def)
qed

lemma lcg_data_has_samples: "has_samples lcg_data [2010..<2016]"
  using lcg_generate_2 [of 0] by (rule generate_has_samples) simp

text \<open>
  C7. With the start button pressed, the stop button not, and a dictionary holding a
  non-empty array for each of the six years 2010 to 2015, the animation runs to its
  end without an error: it draws exactly six frames, for the years in ascending
  order, reports the progress fractions \<open>1/6, 2/6, 3/6, 4/6, 5/6, 1\<close> in this order,
  and its last act is the report of completion.
\<close>

theorem animation_completes:
  assumes "has_samples data_dict [2010..<2016]"
  shows "\<exists>evs. animation True False data_dict [2010..<2016] n_observations animation_speed
                  = (evs, None)
             \<and> length (charts evs) = 6
             \<and> map frame_year (charts evs) = [2010, 2011, 2012, 2013, 2014, 2015]
             \<and> progress_reports evs = [1 / 6, 2 / 6, 3 / 6, 4 / 6, 5 / 6, 1]
             \<and> last evs = Success"
proof -
  have ne: "[2010..<2016] \<noteq> ([]::nat list)"
    by simp
  from animation_cases(2) [OF assms ne, of n_observations animation_speed]
  obtain evs where
    run: "animation True False data_dict [2010..<2016] n_observations animation_speed
        = (ProgressBar 0 # StatusPlaceholder # evs @ [ProgressCleared, StatusCleared, Success], None)"
    and ch: "map frame_year (charts evs) = [2010..<2016]"
    and pr: "progress_reports evs
        = map (\<lambda>i. real (i + 1) / real (length [2010..<2016])) [0..<0 + length [2010..<2016]]"
    by blast
  let ?all = "ProgressBar 0 # StatusPlaceholder # evs @ [ProgressCleared, StatusCleared, Success]"
  have c: "charts ?all = charts evs"
    by (simp add: charts_append)
  have p: "progress_reports ?all = progress_reports evs"
    by (simp add: progress_reports_append)
  have "length (charts evs) = length (map frame_year (charts evs))"
    by simp
  also have "\<dots> = 6"
    unfolding ch by simp
  finally have len: "length (charts evs) = 6" .
  have l: "last ?all = Success"
    by simp
  show ?thesis
    using run c p len l ch [unfolded years_list] pr [unfolded six_fractions]
    by (intro exI [of _ ?all]) (simp only: simp_thms)
qed

theorem animation_completes_witness:
  "has_samples lcg_data [2010..<2016]
   \<and> (\<exists>evs. animation True False lcg_data [2010..<2016] 2 1 = (evs, None)
          \<and> length (charts evs) = 6
          \<and> map frame_year (charts evs) = [2010, 2011, 2012, 2013, 2014, 2015]
          \<and> progress_reports evs = [1 / 6, 2 / 6, 3 / 6, 4 / 6, 5 / 6, 1]
          \<and> last evs = Success)"
  by (intro conjI lcg_data_has_samples animation_completes [OF lcg_data_has_samples])

text \<open>
  The test of line 120 reads a flag that is the same at every period boundary: a run
  that nothing disturbs draws no frame when the flag is set and all six frames when
  it is not.
\<close>

lemma stop_flag_either_way:
  assumes "has_samples data_dict [2010..<2016]"
  shows "length (charts (fst (animation True stop_animation data_dict [2010..<2016]
                                 n_observations animation_speed)))
       = (if stop_animation then 0 else 6)"
proof (cases stop_animation)
  case True
  have ne: "[2010..<2016] \<noteq> ([]::nat list)"
    by simp
  show ?thesis
    using True animation_cases(1) [OF assms ne, of n_observations animation_speed] by simp
next
  case False
  have ne: "[2010..<2016] \<noteq> ([]::nat list)"
    by simp
  from animation_cases(2) [OF assms ne, of n_observations animation_speed]
  obtain evs where
    run: "animation True False data_dict [2010..<2016] n_observations animation_speed
        = (ProgressBar 0 # StatusPlaceholder # evs @ [ProgressCleared, StatusCleared, Success], None)"
    and ch: "map frame_year (charts evs) = [2010..<2016]"
    by blast
  have "length (charts evs) = length (map frame_year (charts evs))"
    by simp
  also have "\<dots> = 6"
    unfolding ch by simp
  finally have "length (charts evs) = 6" .
  then show ?thesis
    using False run by (simp add: charts_append)
qed

lemma abandon_prefix:
  "\<exists>rest. evs = fst (abandon_at_next_call evs) @ rest
          \<and> (snd (abandon_at_next_call evs) \<longrightarrow> rest \<noteq> [])"
  by (induction evs) (auto split: prod.splits)

lemma abandon_charts: "charts (fst (abandon_at_next_call evs)) = []"
proof (induction evs)
  case Nil
  show ?case by simp
next
  case (Cons ev evs)
  then show ?case
    by (cases ev) (auto split: prod.splits)
qed

lemma abandon_abandoned: "charts evs \<noteq> [] \<Longrightarrow> snd (abandon_at_next_call evs)"
proof (induction evs)
  case Nil
  then show ?case by simp
next
  case (Cons ev evs)
  then show ?case
    by (cases ev) (auto split: prod.splits)
qed

lemma interrupted_prefix:
  "\<exists>rest. evs = fst (interrupted c evs) @ rest \<and> (snd (interrupted c evs) \<longrightarrow> rest \<noteq> [])"
proof (induction c evs rule: interrupted.induct)
  case (1 evs)
  show ?case
    using abandon_prefix [of evs] by simp
next
  case (2 c)
  show ?case by simp
next
  case (3 c ev evs)
  then show ?case
    by (auto split: prod.splits)
qed

lemma interrupted_charts: "charts (fst (interrupted c evs)) = charts (take c evs)"
proof (induction c evs rule: interrupted.induct)
  case (1 evs)
  show ?case
    by (simp add: abandon_charts)
next
  case (2 c)
  show ?case by simp
next
  case (3 c ev evs)
  then show ?case
    by (cases ev) (auto split: prod.splits)
qed

lemma interrupted_abandoned:
  "length (charts (take c evs)) < length (charts evs) \<Longrightarrow> snd (interrupted c evs)"
proof (induction c evs rule: interrupted.induct)
  case (1 evs)
  then show ?case
    by (auto intro: abandon_abandoned)
next
  case (2 c)
  then show ?case by simp
next
  case (3 c ev evs)
  then show ?case
    by (cases ev) (auto split: prod.splits)
qed

lemma frame_loop_no_success:
  "Success \<notin> set (fst (frame_loop stop data_dict m n xr sp ps))"
proof (induction ps)
  case Nil
  show ?case by simp
next
  case (Cons p ps)
  obtain i year where p: "p = (i, year)"
    by (cases p)
  from Cons show ?case
    unfolding p by (auto simp: Let_def split: option.splits sum.splits prod.splits)
qed

lemma charts_take_le: "length (charts (take c evs)) \<le> length (charts evs)"
proof (induction evs arbitrary: c)
  case Nil
  show ?case by simp
next
  case (Cons ev evs)
  show ?case
  proof (cases c)
    case 0
    then show ?thesis by simp
  next
    case (Suc c')
    with Cons [of c'] show ?thesis
      by (cases ev) auto
  qed
qed

lemma take_five: "take (5 + n) (a # b # c # d # e # xs) = a # b # c # d # e # take n xs"
proof -
  have "5 + n = Suc (Suc (Suc (Suc (Suc n))))"
    by simp
  then show ?thesis
    by (simp only: take_Suc_Cons)
qed

lemma frame_loop_passes:
  assumes "has_samples data_dict ys" and "j \<le> length ys"
  shows "length (charts (take (5 * j)
           (fst (frame_loop False data_dict m n xr sp (enumerate k ys))))) = j"
  using assms
proof (induction ys arbitrary: j k)
  case Nil
  then show ?case by simp
next
  case (Cons y ys)
  have "y \<in> set (y # ys)"
    by simp
  with Cons.prems(1) obtain a where a: "data_dict y = Some a" "a \<noteq> []"
    by (rule has_samplesD)
  from make_frame_ok [OF a(2), of n xr y] obtain fig where
    fig: "make_frame n xr y a = Inr fig"
    by force
  show ?case
  proof (cases j)
    case 0
    then show ?thesis by simp
  next
    case (Suc j')
    have "length (charts (take (5 * j')
           (fst (frame_loop False data_dict m n xr sp (enumerate (Suc k) ys))))) = j'"
      using Cons.prems Suc by (intro Cons.IH has_samples_Cons [of data_dict y ys]) simp_all
    moreover obtain evs r where
      rest: "frame_loop False data_dict m n xr sp (enumerate (Suc k) ys) = (evs, r)"
      by (cases "frame_loop False data_dict m n xr sp (enumerate (Suc k) ys)")
    ultimately show ?thesis
      using a fig Suc by (simp add: Let_def take_five)
  qed
qed


lemma take_two: "take (2 + n) (a # b # xs) = a # b # take n xs"
proof -
  have "2 + n = Suc (Suc n)"
    by simp
  then show ?thesis
    by (simp only: take_Suc_Cons)
qed

lemma charts_take_nil: "charts evs = [] \<Longrightarrow> charts (take c evs) = []"
  using charts_take_le [of c evs] by simp

lemma charts_after_passes:
  assumes "has_samples data_dict ys" and "ys \<noteq> []" and "j \<le> length ys"
  shows "length (charts (take (2 + 5 * j) (fst (animation True False data_dict ys n sp)))) = j"
proof -
  from animation_cases(2) [OF assms(1,2), of n sp]
  obtain lev xr where
    run: "animation True False data_dict ys n sp
        = (ProgressBar 0 # StatusPlaceholder # lev @ [ProgressCleared, StatusCleared, Success],
           None)"
    and loop: "frame_loop False data_dict (length ys) n xr sp (enumerate 0 ys) = (lev, None)"
    by blast
  have "length (charts (take (5 * j) lev)) = j"
    using frame_loop_passes [OF assms(1,3), of "length ys" n xr sp 0] loop by simp
  moreover have "charts (take (5 * j - length lev) [ProgressCleared, StatusCleared, Success]) = []"
    by (rule charts_take_nil) simp
  ultimately show ?thesis
    unfolding run by (simp add: take_two charts_append)
qed

text \<open>
  C6. If the click on the stop button arrives when exactly three of the six frames
  have been drawn, the run ends abandoned with exactly these three frames drawn: it
  draws no fourth frame and does not report completion, and the run that the click
  starts, in which \<open>start_animation\<close> is false and \<open>stop_animation\<close> true, does not
  enter the animation and draws nothing. The script has no state of its own for
  this; the abandoned run is what the page shows of it. It is the runner that ends
  the run, at the script's next call into Streamlit: the test of line 120 reads a
  flag that the click does not change.
\<close>

theorem stop_click_after_third_frame:
  assumes "has_samples data_dict [2010..<2016]"
    and "length (charts (take c (fst (animation True False data_dict [2010..<2016]
                                        n_observations animation_speed)))) = 3"
  shows "\<exists>made. animation_clicked c True False data_dict [2010..<2016]
                   n_observations animation_speed = (made, Abandoned)
              \<and> length (charts made) = 3
              \<and> Success \<notin> set made
              \<and> animation False True data_dict [2010..<2016] n_observations animation_speed
                  = ([], None)"
proof -
  have ne: "[2010..<2016] \<noteq> ([]::nat list)"
    by simp
  from animation_cases(2) [OF assms(1) ne, of n_observations animation_speed]
  obtain lev xr where
    run: "animation True False data_dict [2010..<2016] n_observations animation_speed
        = (ProgressBar 0 # StatusPlaceholder # lev @ [ProgressCleared, StatusCleared, Success],
           None)"
    and ch: "map frame_year (charts lev) = [2010..<2016]"
    and loop: "frame_loop False data_dict (length [2010..<2016::nat]) n_observations xr
        animation_speed (enumerate 0 [2010..<2016]) = (lev, None)"
    by blast
  define evs where
    "evs = ProgressBar 0 # StatusPlaceholder # lev @ [ProgressCleared, StatusCleared, Success]"
  define made where "made = fst (interrupted c evs)"
  have "length (charts lev) = length (map frame_year (charts lev))"
    by simp
  also have "\<dots> = 6"
    unfolding ch by simp
  finally have six: "length (charts evs) = 6"
    by (simp add: evs_def charts_append)
  have three: "length (charts (take c evs)) = 3"
    using assms(2) by (simp only: run evs_def fst_conv)
  have ab: "snd (interrupted c evs)"
    using three six by (intro interrupted_abandoned) simp
  have m3: "length (charts made) = 3"
    unfolding made_def interrupted_charts by (rule three)
  from interrupted_prefix [of evs c] ab obtain rest where
    rest: "evs = made @ rest" "rest \<noteq> []"
    unfolding made_def by blast
  have lev_ok: "Success \<notin> set lev"
    using frame_loop_no_success [of False data_dict "length [2010..<2016::nat]" n_observations
        xr animation_speed "enumerate 0 [2010..<2016]"]
    by (simp only: loop fst_conv not_False_eq_True)
  define front where
    "front = ProgressBar 0 # StatusPlaceholder # lev @ [ProgressCleared, StatusCleared]"
  have front: "evs = front @ [Success]" "Success \<notin> set front"
    using lev_ok by (simp_all add: evs_def front_def)
  have "length made < length evs"
    using rest by simp
  then have le: "length made \<le> length front"
    using front(1) by simp
  have "made = take (length made) (made @ rest)"
    by simp
  also have "\<dots> = take (length made) (front @ [Success])"
    using rest(1) front(1) by simp
  also have "\<dots> = take (length made) front"
    using le by simp
  finally have "set made \<subseteq> set front"
    by (metis set_take_subset)
  with front(2) have ns: "Success \<notin> set made"
    by blast
  have "animation_clicked c True False data_dict [2010..<2016] n_observations animation_speed
      = (made, Abandoned)"
    using ab unfolding animation_clicked_def run evs_def [symmetric] made_def
    by (cases "interrupted c evs") simp
  moreover have "animation False True data_dict [2010..<2016] n_observations animation_speed
      = ([], None)"
    by (simp add: animation_def)
  ultimately show ?thesis
    using m3 ns by blast
qed

theorem stop_click_after_third_frame_witness:
  "has_samples lcg_data [2010..<2016]
   \<and> length (charts (take 17 (fst (animation True False lcg_data [2010..<2016] 2 1)))) = 3
   \<and> (\<exists>made. animation_clicked 17 True False lcg_data [2010..<2016] 2 1 = (made, Abandoned)
          \<and> length (charts made) = 3
          \<and> Success \<notin> set made
          \<and> animation False True lcg_data [2010..<2016] 2 1 = ([], None))"
proof -
  have ne: "[2010..<2016] \<noteq> ([]::nat list)"
    by simp
  have "length (charts (take (2 + 5 * 3)
      (fst (animation True False lcg_data [2010..<2016] 2 1)))) = 3"
    by (rule charts_after_passes [OF lcg_data_has_samples ne]) simp
  then have h: "length (charts (take 17
      (fst (animation True False lcg_data [2010..<2016] 2 1)))) = 3"
    by simp
  show ?thesis
    by (intro conjI lcg_data_has_samples h
        stop_click_after_third_frame [OF lcg_data_has_samples h])
qed

end
